theory Spec2Isabelle
  imports Complex_Main "HOL-Library.Multiset"
begin

section \<open>Python values, errors and results\<close>

text \<open>
  The loosely typed constructor arguments (\<open>load\<close>, \<open>add_insolation\<close>) and the
  coordinate labels of a selection are Python objects; the four kinds that the
  code distinguishes are kept apart.
\<close>

datatype pyval = PNone | PBool bool | PInt int | PStr string

text \<open>Python's truth value \<open>bool(x)\<close>, as used by \<open>not load\<close>.\<close>

fun truthy :: "pyval \<Rightarrow> bool" where
  "truthy PNone = False"
| "truthy (PBool b) = b"
| "truthy (PInt i) = (i \<noteq> 0)"
| "truthy (PStr s) = (s \<noteq> [])"

fun is_bool :: "pyval \<Rightarrow> bool" where
  "is_bool (PBool b) = True"
| "is_bool v = False"

fun is_str :: "pyval \<Rightarrow> bool" where
  "is_str (PStr s) = True"
| "is_str v = False"

text \<open>
  Every \<open>raise\<close> and every failing \<open>assert\<close> is a value. \<open>ValueError\<close> carries a
  tag saying which statement raised it.
\<close>

datatype error =
    ValueError string
  | AssertionError
  | IndexError
  | KeyError
  | NotImplementedError
  | ZeroDivisionError
  | AttributeError

fun then_do :: "error + 'a \<Rightarrow> ('a \<Rightarrow> error + 'b) \<Rightarrow> error + 'b" where
  "then_do (Inl e) f = Inl e"
| "then_do (Inr v) f = f v"

fun assert :: "bool \<Rightarrow> error + unit" where
  "assert b = (if b then Inr () else Inl AssertionError)"

section \<open>Arrays\<close>

text \<open>
  A numpy array with at least one axis is kept as its rows along axis 0, each row
  holding the cells of that entry in row-major order, together with the shape of
  one entry (\<open>a.shape[1:]\<close>). The full shape is \<open>(len(rows),) + inner\<close>.
  A cell is a number or NaN; no arithmetic on cells is done by the generators.
\<close>

datatype cell = Num real | NaN

record ndarray =
  inner :: "nat list"
  rows :: "cell list list"

definition np_shape :: "ndarray \<Rightarrow> nat list" where
  "np_shape a = length (rows a) # inner a"

definition np_size :: "ndarray \<Rightarrow> nat" where
  "np_size a = prod_list (np_shape a)"

text \<open>An array is well formed when every row has as many cells as its entry shape says.\<close>

definition wf_array :: "ndarray \<Rightarrow> bool" where
  "wf_array a = list_all (\<lambda>r. length r = prod_list (inner a)) (rows a)"

fun chunk :: "nat \<Rightarrow> nat \<Rightarrow> 'a list \<Rightarrow> 'a list list" where
  "chunk 0 k xs = []"
| "chunk (Suc n) k xs = take k xs # chunk n k (drop k xs)"

text \<open>
  \<open>a.reshape((n,) + dims)\<close>: the sizes must agree; the cells keep their row-major
  order and are cut into \<open>n\<close> new rows.
\<close>

definition reshape :: "ndarray \<Rightarrow> nat \<Rightarrow> nat list \<Rightarrow> error + ndarray" where
  "reshape a n dims =
     (if n * prod_list dims = np_size a
      then Inr \<lparr>inner = dims, rows = chunk n (prod_list dims) (concat (rows a))\<rparr>
      else Inl (ValueError ''cannot reshape array''))"

text \<open>
  \<open>a.reshape((n, -1))\<close>: numpy infers the second axis as \<open>size / n\<close> and raises when
  \<open>n\<close> is zero or does not divide the size.
\<close>

definition reshape_flat :: "ndarray \<Rightarrow> nat \<Rightarrow> error + ndarray" where
  "reshape_flat a n =
     (if n = 0 \<or> np_size a mod n \<noteq> 0
      then Inl (ValueError ''cannot reshape array'')
      else reshape a n [np_size a div n])"

text \<open>
  \<open>a[idx]\<close> with an integer index array: an index below zero counts from the end,
  one outside \<open>[-len, len)\<close> raises \<open>IndexError\<close>.
\<close>

definition in_bounds :: "nat \<Rightarrow> int \<Rightarrow> bool" where
  "in_bounds n i = (- int n \<le> i \<and> i < int n)"

definition wrap_index :: "nat \<Rightarrow> int \<Rightarrow> nat" where
  "wrap_index n i = nat (if i < 0 then i + int n else i)"

definition take_rows :: "ndarray \<Rightarrow> int list \<Rightarrow> error + ndarray" where
  "take_rows a idx =
     (if list_all (in_bounds (length (rows a))) idx
      then Inr \<lparr>inner = inner a,
                rows = map (\<lambda>i. rows a ! wrap_index (length (rows a)) i) idx\<rparr>
      else Inl IndexError)"

text \<open>\<open>a[:, np.newaxis]\<close>: a new axis of length one after the first.\<close>

definition newaxis :: "ndarray \<Rightarrow> ndarray" where
  "newaxis a = a\<lparr>inner := 1 # inner a\<rparr>"

text \<open>
  \<open>np.concatenate(as, axis=1)\<close>: all arrays agree on every axis but the second;
  row \<open>i\<close> of the result is row \<open>i\<close> of each array in turn.
\<close>

definition concatenate1 :: "ndarray list \<Rightarrow> error + ndarray" where
  "concatenate1 as =
     (case as of
        [] \<Rightarrow> Inl (ValueError ''need at least one array to concatenate'')
      | a # bs \<Rightarrow>
          if inner a \<noteq> [] \<and>
             list_all (\<lambda>b. length (rows b) = length (rows a) \<and> inner b \<noteq> [] \<and>
                            tl (inner b) = tl (inner a)) bs
          then Inr \<lparr>inner = sum_list (map (\<lambda>b. hd (inner b)) as) # tl (inner a),
                    rows = map (\<lambda>i. concat (map (\<lambda>b. rows b ! i) as)) [0..<length (rows a)]\<rparr>
          else Inl (ValueError ''all the input array dimensions must match''))"

text \<open>
  \<open>np.concatenate([a, b], axis=2)\<close>: both arrays agree on every axis but the third;
  within each row, each block along the second axis of \<open>a\<close> is followed by the
  block of \<open>b\<close> at the same position.
\<close>

definition concatenate2 :: "ndarray \<Rightarrow> ndarray \<Rightarrow> error + ndarray" where
  "concatenate2 a b =
     (case (inner a, inner b) of
        (ta # ca # ra, tb # cb # rb) \<Rightarrow>
          if length (rows a) = length (rows b) \<and> ta = tb \<and> ra = rb
          then Inr \<lparr>inner = ta # (ca + cb) # ra,
                    rows = map2 (\<lambda>x y. concat (map2 (@) (chunk ta (ca * prod_list ra) x)
                                                       (chunk tb (cb * prod_list rb) y)))
                             (rows a) (rows b)\<rparr>
          else Inl (ValueError ''all the input array dimensions must match'')
      | _ \<Rightarrow> Inl (ValueError ''axis 2 is out of bounds''))"

text \<open>\<open>np.arange(n)\<close> for an integer \<open>n\<close>: empty when \<open>n\<close> is not positive.\<close>

definition arange :: "int \<Rightarrow> int list" where
  "arange n = map int [0..<nat n]"

text \<open>
  The Python tuple slices \<open>s[-r:]\<close>, \<open>s[:-r]\<close> and \<open>s[1:-r]\<close> for \<open>r \<ge> 0\<close>. A bound
  beyond the tuple is clamped, which the truncating subtraction gives; \<open>-0\<close> is
  \<open>0\<close>, so for \<open>r = 0\<close> the first slice is the whole tuple and the other two
  are empty.
\<close>

definition last_n :: "nat \<Rightarrow> 'a list \<Rightarrow> 'a list" where
  "last_n r s = (if r = 0 then s else drop (length s - r) s)"

definition but_last_n :: "nat \<Rightarrow> 'a list \<Rightarrow> 'a list" where
  "but_last_n r s = (if r = 0 then [] else take (length s - r) s)"

definition mid_slice :: "nat \<Rightarrow> 'a list \<Rightarrow> 'a list" where
  "mid_slice r s = (if r = 0 then [] else drop 1 (take (length s - r) s))"

text \<open>
  \<open>xs[a:b]\<close> on a sequence, for any integers \<open>a\<close> and \<open>b\<close>: a negative bound counts
  from the end, and both are clamped to the sequence.
\<close>

definition slice_bound :: "nat \<Rightarrow> int \<Rightarrow> nat" where
  "slice_bound n a = nat (min (int n) (if a < 0 then max 0 (a + int n) else a))"

definition py_slice :: "'a list \<Rightarrow> int \<Rightarrow> int \<Rightarrow> 'a list" where
  "py_slice xs a b =
     take (slice_bound (length xs) b - slice_bound (length xs) a)
          (drop (slice_bound (length xs) a) xs)"

section \<open>Collaborators\<close>

text \<open>
  The model object: three flags and two transforms on a pair of arrays. What the
  transforms compute is the model's business.
\<close>

record model =
  m_is_convolutional :: bool
  m_is_recurrent :: bool
  m_impute :: bool
  m_scaler_transform :: "ndarray \<Rightarrow> ndarray \<Rightarrow> ndarray \<times> ndarray"
  m_imputer_transform :: "ndarray \<Rightarrow> ndarray \<Rightarrow> ndarray \<times> ndarray"

text \<open>
  A labelled array of the storage engine: its values, and whether \<open>.load()\<close> has
  brought them into memory.
\<close>

record dataarray =
  da_values :: ndarray
  in_memory :: bool

definition da_shape :: "dataarray \<Rightarrow> nat list" where
  "da_shape x = np_shape (da_values x)"

definition da_load :: "dataarray \<Rightarrow> dataarray" where
  "da_load x = x\<lparr>in_memory := True\<rparr>"

text \<open>A selection is a Python dict from a dimension name to the labels wanted.\<close>

type_synonym selection = "(string \<times> pyval list) list"

text \<open>
  The dataset, with the operations of the storage engine that the generator calls:
  \<open>ds_sel s x\<close> is \<open>x.sel(**s)\<close>, which may raise; \<open>ds_isel_varlev k x\<close> is
  \<open>x.isel(varlev=slice(0, k))\<close>; \<open>ds_isel_last_time_step x\<close> is
  \<open>x.isel(time_step=-1)\<close>. \<open>ds_insolation daily\<close> is the array that the helper
  \<open>insolation(da.sample.values, ds.lat.values, ds.lon.values, daily=daily)\<close>
  computes from the coordinates of this dataset.
\<close>

record dataset =
  ds_has_predictors :: bool
  ds_dim_sample :: int
  ds_has_time_step :: bool
  ds_predictors :: dataarray
  ds_isel_last_time_step :: "dataarray \<Rightarrow> dataarray"
  ds_has_varlev :: bool
  ds_varlev :: "pyval list"
  ds_variable :: "pyval list"
  ds_level :: "pyval list"
  ds_sel :: "selection \<Rightarrow> dataarray \<Rightarrow> error + dataarray"
  ds_isel_varlev :: "nat \<Rightarrow> dataarray \<Rightarrow> dataarray"
  ds_insolation :: "bool \<Rightarrow> ndarray"
  ds_in_memory :: bool

text \<open>
  What the generator takes from outside the class and the dataset: the helper
  \<open>to_bool\<close> (\<open>None\<close> when it raises \<open>ValueError\<close>) and the outcome of
  \<open>np.random.shuffle\<close> on the index array.
\<close>

record externals =
  to_bool :: "pyval \<Rightarrow> bool option"
  np_random_shuffle :: "int list \<Rightarrow> int list"

section \<open>SeriesDataGenerator\<close>

subsection \<open>State\<close>

text \<open>
  The attributes of an instance. The counts that the constructor asserts to be
  positive are natural numbers; \<open>n_sample\<close> is an integer, since nothing keeps it
  from being negative.
\<close>

record generator =
  model :: model
  ds :: dataset
  add_insolation :: bool
  daily_insolation :: bool
  load :: pyval
  is_loaded :: bool
  batch_size :: nat
  shuffle :: bool
  remove_nan :: bool
  is_convolutional :: bool
  keep_time_axis :: bool
  impute_missing :: bool
  indices :: "int list"
  sequence :: "nat option"
  n_sample :: int
  da :: dataarray
  rank :: nat
  input_sel :: selection
  output_sel :: selection
  input_time_steps :: nat
  output_time_steps :: nat
  interval :: nat
  input_da :: dataarray
  output_da :: dataarray
  insolation_da :: "ndarray option"

subsection \<open>Shape properties\<close>

definition shape :: "generator \<Rightarrow> nat list" where
  "shape g = input_time_steps g # tl (da_shape (input_da g))"

definition n_features :: "generator \<Rightarrow> nat" where
  "n_features g =
     prod_list (shape g) +
     prod_list (last_n (rank g) (shape g)) * input_time_steps g * of_bool (add_insolation g)"

definition dense_shape :: "generator \<Rightarrow> error + nat list" where
  "dense_shape g =
     (if keep_time_axis g
      then (if hd (shape g) = 0 then Inl ZeroDivisionError
            else Inr ([hd (shape g)] @ [n_features g div hd (shape g)]))
      else Inr ([n_features g] @ []))"

definition convolution_shape :: "generator \<Rightarrow> nat list" where
  "convolution_shape g =
     (if keep_time_axis g
      then [input_time_steps g] @
           [prod_list (mid_slice (rank g) (shape g)) + of_bool (add_insolation g)] @
           last_n (rank g) (shape g)
      else [prod_list (but_last_n (rank g) (shape g)) +
            input_time_steps g * of_bool (add_insolation g)] @
           last_n (rank g) (da_shape (input_da g)))"

text \<open>
  \<open>shape_2d\<close> writes the time-axis flag, so it returns the instance as it leaves it
  along with the shape.
\<close>

definition shape_2d :: "generator \<Rightarrow> nat list \<times> generator" where
  "shape_2d g =
     (if keep_time_axis g
      then (let g1 = g\<lparr>keep_time_axis := False\<rparr>;
                s = convolution_shape g1;
                g2 = g1\<lparr>keep_time_axis := True\<rparr>
            in (s, g2))
      else (convolution_shape g, g))"

definition output_shape :: "generator \<Rightarrow> nat list" where
  "output_shape g = output_time_steps g # tl (da_shape (output_da g))"

definition output_n_features :: "generator \<Rightarrow> nat" where
  "output_n_features g = prod_list (output_shape g)"

definition output_dense_shape :: "generator \<Rightarrow> error + nat list" where
  "output_dense_shape g =
     (if keep_time_axis g
      then (if hd (output_shape g) = 0 then Inl ZeroDivisionError
            else Inr ([hd (output_shape g)] @ [output_n_features g div hd (output_shape g)]))
      else Inr ([output_n_features g] @ []))"

definition output_convolution_shape :: "generator \<Rightarrow> nat list" where
  "output_convolution_shape g =
     (if keep_time_axis g
      then [output_time_steps g] @
           [prod_list (mid_slice (rank g) (output_shape g))] @
           last_n (rank g) (output_shape g)
      else [prod_list (but_last_n (rank g) (output_shape g))] @
           last_n (rank g) (da_shape (output_da g)))"

definition output_shape_2d :: "generator \<Rightarrow> nat list \<times> generator" where
  "output_shape_2d g =
     (if keep_time_axis g
      then (let g1 = g\<lparr>keep_time_axis := False\<rparr>;
                s = output_convolution_shape g1;
                g2 = g1\<lparr>keep_time_axis := True\<rparr>
            in (s, g2))
      else (output_convolution_shape g, g))"

definition insolation_shape :: "generator \<Rightarrow> nat list" where
  "insolation_shape g = [input_time_steps g, 1] @ last_n (rank g) (convolution_shape g)"

subsection \<open>Epoch control and length\<close>

definition on_epoch_end :: "externals \<Rightarrow> generator \<Rightarrow> generator" where
  "on_epoch_end ext g =
     (let g1 = g\<lparr>indices := arange (n_sample g)\<rparr>
      in if shuffle g1 then g1\<lparr>indices := np_random_shuffle ext (indices g1)\<rparr> else g1)"

text \<open>
  \<open>int(np.ceil(self._n_sample / self._batch_size))\<close>, for a positive batch size.
  The quotient is a float in the code; here it is the exact quotient.
\<close>

definition len :: "generator \<Rightarrow> int" where
  "len g = \<lceil>real_of_int (n_sample g) / real (batch_size g)\<rceil>"

subsection \<open>Loading\<close>

definition sel_views :: "generator \<Rightarrow> error + generator" where
  "sel_views g =
     then_do (ds_sel (ds g) (input_sel g) (da g)) (\<lambda>vi.
     then_do (ds_sel (ds g) (output_sel g) (da g)) (\<lambda>vo.
     Inr (g\<lparr>input_da := vi, output_da := vo\<rparr>)))"

definition load_minimal :: "generator \<Rightarrow> error + generator" where
  "load_minimal g =
     (case map_of (input_sel g) ''varlev'' of
        Some ins \<Rightarrow>
          (case map_of (output_sel g) ''varlev'' of
             None \<Rightarrow> Inl KeyError
           | Some outs \<Rightarrow>
               (let union = filter (\<lambda>s. s \<in> set outs) ins;
                    added_in = filter (\<lambda>s. s \<notin> set union) ins;
                    added_out = filter (\<lambda>s. s \<notin> set union) outs
                in if length added_in > 0 \<and> length added_out > 0
                   then sel_views (g\<lparr>da := da_load (da g)\<rparr>)
                   else then_do (ds_sel (ds g) [(''varlev'', union @ added_in @ added_out)] (da g))
                          (\<lambda>d. let d1 = da_load d
                                in Inr (g\<lparr>da := d1,
                                          input_da := ds_isel_varlev (ds g)
                                                        (length union + length added_in) d1,
                                          output_da := ds_isel_varlev (ds g)
                                                        (length union + length added_out) d1\<rparr>))))
      | None \<Rightarrow> Inl NotImplementedError)"

text \<open>\<open>if self._load == 'full': self.ds.load()\<close>.\<close>

definition load_full :: "generator \<Rightarrow> generator" where
  "load_full g =
     (if load g = PStr ''full'' then g\<lparr>ds := (ds g)\<lparr>ds_in_memory := True\<rparr>\<rparr> else g)"

text \<open>
  The two branches on \<open>self._load == 'minimal'\<close>; in the second the views are
  selected and, for \<open>required\<close>, loaded.
\<close>

definition load_views :: "generator \<Rightarrow> error + generator" where
  "load_views g =
     (if load g = PStr ''minimal'' then load_minimal g
      else then_do (sel_views g) (\<lambda>g2.
             if load g2 = PStr ''required''
             then Inr (g2\<lparr>input_da := da_load (input_da g2),
                          output_da := da_load (output_da g2)\<rparr>)
             else Inr g2))"

definition load_data :: "generator \<Rightarrow> error + generator" where
  "load_data g = then_do (load_views (load_full g)) (\<lambda>g3. Inr (g3\<lparr>is_loaded := True\<rparr>))"

subsection \<open>Construction\<close>

record init_args =
  arg_rank :: int
  arg_input_sel :: "selection option"
  arg_output_sel :: "selection option"
  arg_input_time_steps :: int
  arg_output_time_steps :: int
  arg_sequence :: "int option"
  arg_interval :: int
  arg_add_insolation :: pyval
  arg_batch_size :: int
  arg_shuffle :: bool
  arg_remove_nan :: bool
  arg_load :: pyval
  arg_force_load :: bool

text \<open>The defaults of the signature.\<close>

definition default_args :: init_args where
  "default_args =
     \<lparr>arg_rank = 2, arg_input_sel = None, arg_output_sel = None,
      arg_input_time_steps = 1, arg_output_time_steps = 1, arg_sequence = None,
      arg_interval = 1, arg_add_insolation = PBool False, arg_batch_size = 32,
      arg_shuffle = False, arg_remove_nan = True, arg_load = PStr ''required'',
      arg_force_load = False\<rparr>"

text \<open>The validation of \<open>load\<close>: the value that \<open>self._load\<close> will hold, or the error.\<close>

definition check_load :: "pyval \<Rightarrow> error + pyval" where
  "check_load l =
     (if \<not> (\<not> truthy l)
      then (if l \<notin> set [PStr ''full'', PStr ''required'', PStr ''minimal'']
            then (if is_bool l then Inr (PStr ''required'')
                  else Inl (ValueError ''load must be one of full, required, or minimal''))
            else Inr l)
      else Inr l)"

text \<open>
  The treatment of \<open>add_insolation\<close>: the pair of \<open>self._add_insolation\<close> and
  \<open>self._daily_insolation\<close>, or the failed assertion.
\<close>

definition check_insolation :: "externals \<Rightarrow> pyval \<Rightarrow> error + bool \<times> bool" where
  "check_insolation ext a =
     (let a1 = (case to_bool ext a of Some b \<Rightarrow> PBool b | None \<Rightarrow> a)
      in then_do (assert (is_bool a1 \<or> is_str a1)) (\<lambda>_.
         then_do (if is_str a1 then assert (a1 \<in> set [PStr ''hourly'', PStr ''daily''])
                  else Inr ()) (\<lambda>_.
         Inr (if is_str a1 then True else a1 = PBool True, a1 = PStr ''daily''))))"

definition default_sel :: "dataset \<Rightarrow> selection option \<Rightarrow> selection" where
  "default_sel d s =
     (let s1 = (case s of None \<Rightarrow> [] | Some x \<Rightarrow> (if x = [] then [] else x))
      in if length s1 = 0
         then (if ds_has_varlev d then [(''varlev'', ds_varlev d)]
               else [(''variable'', ds_variable d), (''level'', ds_level d)])
         else s1)"

text \<open>The assertions on the numeric arguments, in the order of the code.\<close>

definition check_args :: "init_args \<Rightarrow> error + unit" where
  "check_args a =
     then_do (assert (arg_rank a > 0)) (\<lambda>_.
     then_do (assert (arg_input_time_steps a > 0)) (\<lambda>_.
     then_do (assert (arg_output_time_steps a > 0)) (\<lambda>_.
     then_do (assert (arg_batch_size a > 0)) (\<lambda>_.
     then_do (assert (arg_interval a > 0)) (\<lambda>_.
     (case arg_sequence a of None \<Rightarrow> Inr () | Some q \<Rightarrow> assert (q > 0)))))))"

text \<open>\<open>self.da\<close>: the last time step when the dataset has a time-step axis.\<close>

definition canonical :: "dataset \<Rightarrow> dataarray" where
  "canonical d =
     (if ds_has_time_step d then ds_isel_last_time_step d (ds_predictors d)
      else ds_predictors d)"

text \<open>
  The attribute assignments of the constructor, given the checked \<open>load\<close>, the two
  insolation flags and the two selected views.
\<close>

definition new_generator ::
  "model \<Rightarrow> dataset \<Rightarrow> init_args \<Rightarrow> pyval \<Rightarrow> bool \<times> bool \<Rightarrow> dataarray \<Rightarrow> dataarray
   \<Rightarrow> generator" where
  "new_generator m d a l insol ida oda =
     \<lparr>model = m, ds = d, add_insolation = fst insol, daily_insolation = snd insol,
      load = l, is_loaded = False,
      batch_size = nat (arg_batch_size a), shuffle = arg_shuffle a,
      remove_nan = arg_remove_nan a,
      is_convolutional = m_is_convolutional m,
      keep_time_axis = m_is_recurrent m,
      impute_missing = m_impute m,
      indices = [],
      sequence = map_option nat (arg_sequence a),
      n_sample =
        (case arg_sequence a of
           Some q \<Rightarrow> ds_dim_sample d - arg_input_time_steps a
                       - arg_output_time_steps a * q + 2 - arg_interval a
         | None \<Rightarrow> ds_dim_sample d - arg_input_time_steps a
                       - arg_output_time_steps a + 2 - arg_interval a),
      da = canonical d, rank = nat (arg_rank a),
      input_sel = default_sel d (arg_input_sel a),
      output_sel = default_sel d (arg_output_sel a),
      input_time_steps = nat (arg_input_time_steps a),
      output_time_steps = nat (arg_output_time_steps a),
      interval = nat (arg_interval a),
      input_da = ida, output_da = oda, insolation_da = None\<rparr>"

text \<open>
  The last step of the constructor: the insolation array, whose dimension names are
  \<open>sample\<close> and one per spatial axis, so its number of axes must be \<open>1 + rank\<close>.
\<close>

definition pregenerate_insolation :: "generator \<Rightarrow> error + generator" where
  "pregenerate_insolation g =
     (if add_insolation g
      then (let sol = ds_insolation (ds g) (daily_insolation g)
            in if length (np_shape sol) = 1 + rank g
               then Inr (g\<lparr>insolation_da := Some sol\<rparr>)
               else Inl (ValueError ''different number of dimensions on data and dims''))
      else Inr g)"

definition init :: "externals \<Rightarrow> model \<Rightarrow> dataset \<Rightarrow> init_args \<Rightarrow> error + generator" where
  "init ext m d a =
     (if \<not> ds_has_predictors d then Inl (ValueError ''dataset must have predictors variable'')
      else
        then_do (check_args a) (\<lambda>_.
        then_do (check_load (arg_load a)) (\<lambda>l.
        then_do (check_insolation ext (arg_add_insolation a)) (\<lambda>insol.
        then_do (ds_sel d (default_sel d (arg_input_sel a)) (canonical d)) (\<lambda>ida.
        then_do (ds_sel d (default_sel d (arg_output_sel a)) (canonical d)) (\<lambda>oda.
        then_do (if arg_force_load a then load_data (new_generator m d a l insol ida oda)
                 else Inr (new_generator m d a l insol ida oda)) (\<lambda>g1.
        pregenerate_insolation (on_epoch_end ext g1))))))))"

subsection \<open>Windows\<close>

text \<open>A list comprehension whose body may raise: the first error ends it.\<close>

fun collect :: "('a \<Rightarrow> error + 'b) \<Rightarrow> 'a list \<Rightarrow> error + 'b list" where
  "collect f [] = Inr []"
| "collect f (x # xs) = then_do (f x) (\<lambda>y. then_do (collect f xs) (\<lambda>ys. Inr (y # ys)))"

text \<open>
  \<open>vals[samples + off + n, np.newaxis]\<close>, the body of the comprehension that builds
  every window; \<open>off\<close> is what the call site adds to \<open>samples\<close> besides \<open>n\<close>. With
  \<open>twice\<close> the index is \<open>[..., np.newaxis, np.newaxis]\<close>, as for the insolation.
\<close>

definition step_block :: "ndarray \<Rightarrow> int list \<Rightarrow> int \<Rightarrow> bool \<Rightarrow> nat \<Rightarrow> error + ndarray" where
  "step_block vals samples off twice n =
     then_do (take_rows vals (map (\<lambda>s. s + off + int n) samples))
       (\<lambda>a. Inr (if twice then newaxis (newaxis a) else newaxis a))"

text \<open>\<open>np.concatenate([... for n in range(steps)], axis=1)\<close> over that body.\<close>

definition stack_steps :: "ndarray \<Rightarrow> int list \<Rightarrow> int \<Rightarrow> nat \<Rightarrow> bool \<Rightarrow> error + ndarray" where
  "stack_steps vals samples off steps twice =
     then_do (collect (step_block vals samples off twice) [0..<steps]) concatenate1"

subsection \<open>Post-processing\<close>

definition has_nan :: "cell list \<Rightarrow> bool" where
  "has_nan r = list_ex (\<lambda>c. c = NaN) r"

definition drop_rows :: "(nat \<Rightarrow> bool) \<Rightarrow> 'a list \<Rightarrow> 'a list" where
  "drop_rows bad xs = map snd (filter (\<lambda>(i, r). \<not> bad i) (zip [0..<length xs] xs))"

text \<open>
  Modelled from the spec: the helper \<open>delete_nan_samples\<close> of the package's
  \<open>util\<close> module, which is not part of the sources at hand. The spec: drop any
  sample (row) where either the predictor or the target contains a NaN anywhere;
  predictor and target arrays are filtered jointly to keep correspondence.
\<close>

definition delete_nan_samples :: "ndarray \<Rightarrow> ndarray \<Rightarrow> ndarray \<times> ndarray" where
  "delete_nan_samples p t =
     (let bad = (\<lambda>i. (i < length (rows p) \<and> has_nan (rows p ! i)) \<or>
                     (i < length (rows t) \<and> has_nan (rows t ! i)))
      in (p\<lparr>rows := drop_rows bad (rows p)\<rparr>, t\<lparr>rows := drop_rows bad (rows t)\<rparr>))"

text \<open>
  The block that follows each target window in \<open>generate\<close> (the code has it once in
  the sequence loop and once in the other branch, word for word) has three steps.
  The first: \<open>if self._remove_nan: p, t = delete_nan_samples(p, t)\<close>.
\<close>

definition remove_nan_step :: "generator \<Rightarrow> ndarray \<Rightarrow> ndarray \<Rightarrow> ndarray \<times> ndarray" where
  "remove_nan_step g p t = (if remove_nan g then delete_nan_samples p t else (p, t))"

text \<open>The second: imputation, if the model asks for it, and scaling, under \<open>scale_and_impute\<close>.\<close>

definition scale_and_impute_step ::
  "generator \<Rightarrow> bool \<Rightarrow> ndarray \<times> ndarray \<Rightarrow> ndarray \<times> ndarray" where
  "scale_and_impute_step g scale_and_impute pt =
     (if scale_and_impute
      then (let pt1 = (if impute_missing g
                       then m_imputer_transform (model g) (fst pt) (snd pt)
                       else pt)
            in m_scaler_transform (model g) (fst pt1) (snd pt1))
      else pt)"

text \<open>
  The third, under the comment \<open>Format spatial shape for convolutions; also takes care
  of time axis\<close>. It stands outside the test of \<open>scale_and_impute\<close>. \<open>n\<close> is the
  \<open>n_sample\<close> of \<open>generate\<close>, the number of samples asked for.
\<close>

definition format_shape ::
  "generator \<Rightarrow> nat \<Rightarrow> ndarray \<times> ndarray \<Rightarrow> error + ndarray \<times> ndarray" where
  "format_shape g n pt =
     (if is_convolutional g
      then then_do (reshape (fst pt) n (convolution_shape g)) (\<lambda>p3.
           then_do (reshape (snd pt) n (output_convolution_shape g)) (\<lambda>t3.
           Inr (p3, t3)))
      else if keep_time_axis g
      then then_do (dense_shape g) (\<lambda>sh.
           then_do (reshape (fst pt) n sh) (\<lambda>p3.
           then_do (output_dense_shape g) (\<lambda>osh.
           then_do (reshape (snd pt) n osh) (\<lambda>t3.
           Inr (p3, t3)))))
      else Inr pt)"

definition post_process ::
  "generator \<Rightarrow> bool \<Rightarrow> nat \<Rightarrow> ndarray \<Rightarrow> ndarray \<Rightarrow> error + ndarray \<times> ndarray" where
  "post_process g scale_and_impute n p t =
     format_shape g n (scale_and_impute_step g scale_and_impute (remove_nan_step g p t))"

subsection \<open>generate\<close>

text \<open>What \<open>generate\<close> hands back for the predictors or the targets: one array or a list.\<close>

datatype tensors = Single ndarray | Many "ndarray list"

text \<open>
  The insolation part: the predictors reshaped to the layout with a time axis and
  without insolation, joined with the first insolation block on the channel axis,
  and the list of all insolation blocks. The two flags are set and put back, so
  the instance leaves this part as it entered it.
\<close>

definition add_insol ::
  "generator \<Rightarrow> int list \<Rightarrow> nat \<Rightarrow> ndarray \<Rightarrow> error + ndarray \<times> ndarray list" where
  "add_insol g samples n p =
     (let g1 = g\<lparr>add_insolation := False\<rparr>;
          keep_time = keep_time_axis g1;
          g2 = g1\<lparr>keep_time_axis := True\<rparr>;
          shp = convolution_shape g2
      in case insolation_da g of
           None \<Rightarrow> Inl AttributeError
         | Some sol \<Rightarrow>
             then_do
               (case sequence g of
                  Some q \<Rightarrow>
                    collect (\<lambda>s. stack_steps sol samples (int (input_time_steps g) * int s)
                                   (input_time_steps g) True) [0..<q]
                | None \<Rightarrow>
                    then_do (stack_steps sol samples 0 (input_time_steps g) True)
                      (\<lambda>b. Inr [b]))
               (\<lambda>insol.
                  then_do (reshape p n shp) (\<lambda>p1.
                  case insol of
                    [] \<Rightarrow> Inl IndexError
                  | b # bs \<Rightarrow> then_do (concatenate2 p1 b) (\<lambda>p2. Inr (p2, insol)))))"

text \<open>
  The loop \<open>for s in range(self._sequence)\<close> over the target windows. It carries
  the predictors, which every pass filters, scales and reshapes again, and the list
  of targets so far. \<open>n\<close> is the \<open>n_sample\<close> of \<open>generate\<close>, \<open>len(samples)\<close>.
\<close>

fun seq_loop ::
  "generator \<Rightarrow> bool \<Rightarrow> int list \<Rightarrow> nat \<Rightarrow> nat list \<Rightarrow> ndarray \<Rightarrow> ndarray list
   \<Rightarrow> error + ndarray \<times> ndarray list" where
  "seq_loop g sai samples n [] p targets = Inr (p, targets)"
| "seq_loop g sai samples n (s # ss) p targets =
     then_do (stack_steps (da_values (output_da g)) samples
                (int (input_time_steps g) + int (interval g) - 1
                 + int (output_time_steps g) * int s)
                (output_time_steps g) False) (\<lambda>t.
     then_do (reshape_flat t n) (\<lambda>t1.
     then_do (post_process g sai n p t1) (\<lambda>pt.
     seq_loop g sai samples n ss (fst pt) (targets @ [snd pt]))))"

text \<open>\<open>if not self._is_loaded: self._load_data()\<close>.\<close>

definition ensure_loaded :: "generator \<Rightarrow> error + generator" where
  "ensure_loaded g = (if \<not> is_loaded g then load_data g else Inr g)"

text \<open>
  The part of \<open>generate\<close> under the comment \<open>Predictors\<close>: the flat predictor array
  and the list \<open>insol\<close> (empty without insolation).
\<close>

definition predictors :: "generator \<Rightarrow> int list \<Rightarrow> error + ndarray \<times> ndarray list" where
  "predictors g samples =
     then_do (stack_steps (da_values (input_da g)) samples 0 (input_time_steps g) False)
       (\<lambda>p.
     then_do (if add_insolation g then add_insol g samples (length samples) p
              else Inr (p, [])) (\<lambda>pi.
     then_do (reshape_flat (fst pi) (length samples)) (\<lambda>p2.
     Inr (p2, snd pi))))"

text \<open>
  The part of \<open>generate\<close> under the comment \<open>Targets, including sequence if desired\<close>,
  up to the \<open>return\<close>.
\<close>

definition targets_part ::
  "generator \<Rightarrow> int list \<Rightarrow> bool \<Rightarrow> ndarray \<Rightarrow> ndarray list \<Rightarrow> error + tensors \<times> tensors" where
  "targets_part g samples scale_and_impute p insol =
     (case sequence g of
        Some q \<Rightarrow>
          then_do (seq_loop g scale_and_impute samples (length samples) [0..<q] p [])
            (\<lambda>pt.
               Inr (if add_insolation g then Many ([fst pt] @ tl insol) else Single (fst pt),
                    Many (snd pt)))
      | None \<Rightarrow>
          then_do (stack_steps (da_values (output_da g)) samples
                     (int (input_time_steps g) + int (interval g) - 1)
                     (output_time_steps g) False) (\<lambda>t.
          then_do (reshape_flat t (length samples)) (\<lambda>t1.
          then_do (post_process g scale_and_impute (length samples) p t1) (\<lambda>pt.
          Inr (Single (fst pt), Single (snd pt))))))"

text \<open>An empty \<open>samples\<close> stands for all of \<open>np.arange(self._n_sample)\<close>.\<close>

definition requested :: "generator \<Rightarrow> int list \<Rightarrow> int list" where
  "requested g samples = (if length samples = 0 then arange (n_sample g) else samples)"

definition generate ::
  "generator \<Rightarrow> int list \<Rightarrow> bool \<Rightarrow> error + (tensors \<times> tensors) \<times> generator" where
  "generate g samples scale_and_impute =
     then_do (ensure_loaded g) (\<lambda>g1.
     then_do (predictors g1 (requested g samples)) (\<lambda>pi.
     then_do (targets_part g1 (requested g samples) scale_and_impute (fst pi) (snd pi))
       (\<lambda>b.
     Inr (b, g1))))"

subsection \<open>Batches\<close>

text \<open>
  The builtin \<open>len(self)\<close>: the division in \<open>__len__\<close> raises for a batch size of
  zero, and the builtin refuses a negative \<open>__len__\<close>.
\<close>

definition builtin_len :: "generator \<Rightarrow> error + int" where
  "builtin_len g =
     (if batch_size g = 0 then Inl ZeroDivisionError
      else if len g < 0 then Inl (ValueError ''__len__() should return >= 0'')
      else Inr (len g))"

text \<open>The slice of the index ordering that \<open>__getitem__\<close> takes for a batch index.\<close>

definition batch_indexes :: "generator \<Rightarrow> int \<Rightarrow> int list" where
  "batch_indexes g i =
     py_slice (indices g) (i * int (batch_size g)) ((i + 1) * int (batch_size g))"

definition getitem :: "generator \<Rightarrow> int \<Rightarrow> error + (tensors \<times> tensors) \<times> generator" where
  "getitem g index0 =
     then_do (if index0 < 0 then then_do (builtin_len g) (\<lambda>l. Inr (l + index0))
              else Inr index0) (\<lambda>index.
     then_do (builtin_len g) (\<lambda>l.
     if index > l then Inl IndexError
     else generate g (batch_indexes g index) True))"

section \<open>DataGenerator\<close>

text \<open>
  The dataset of a \<open>DataGenerator\<close>: the values of its variables \<open>predictors\<close> and
  \<open>targets\<close>, whose first axis is \<open>sample\<close>, and the length \<open>ds.dims['sample']\<close>.
\<close>

record dg_dataset =
  dd_has_predictors :: bool
  dd_has_targets :: bool
  dd_dim_sample :: int
  dd_has_time_step :: bool
  dd_predictors :: ndarray
  dd_targets :: ndarray

text \<open>The attributes of an instance; the batch size is not validated by this class.\<close>

record data_generator =
  dg_model :: model
  dg_ds :: dg_dataset
  dg_batch_size :: int
  dg_shuffle :: bool
  dg_remove_nan :: bool
  dg_is_convolutional :: bool
  dg_keep_time_axis :: bool
  dg_impute_missing :: bool
  dg_indices :: "int list"
  dg_n_sample :: int
  dg_has_time_step :: bool

definition dg_shape :: "data_generator \<Rightarrow> nat list" where
  "dg_shape g =
     (if dg_has_time_step g then tl (np_shape (dd_predictors (dg_ds g)))
      else [1] @ tl (np_shape (dd_predictors (dg_ds g))))"

definition dg_n_features :: "data_generator \<Rightarrow> nat" where
  "dg_n_features g = prod_list (dg_shape g)"

text \<open>\<open>s[0]\<close> on a tuple, which raises on the empty one.\<close>

definition first_of :: "'a list \<Rightarrow> error + 'a" where
  "first_of s = (case s of [] \<Rightarrow> Inl IndexError | x # _ \<Rightarrow> Inr x)"

definition dg_dense_shape :: "data_generator \<Rightarrow> error + nat list" where
  "dg_dense_shape g =
     (if dg_keep_time_axis g
      then then_do (first_of (dg_shape g)) (\<lambda>s0.
             if s0 = 0 then Inl ZeroDivisionError
             else Inr ([s0] @ [dg_n_features g div s0]))
      else Inr ([dg_n_features g] @ []))"

definition dg_convolution_shape :: "data_generator \<Rightarrow> error + nat list" where
  "dg_convolution_shape g =
     (if dg_keep_time_axis g
      then then_do (first_of (dg_shape g)) (\<lambda>s0.
             Inr ([s0] @ [prod_list (mid_slice 2 (dg_shape g))] @ last_n 2 (dg_shape g)))
      else Inr ([prod_list (but_last_n 2 (dg_shape g))] @
                last_n 2 (np_shape (dd_predictors (dg_ds g)))))"

text \<open>
  \<open>shape_2d\<close> sets the flag back only after \<open>convolution_shape\<close> has returned.
\<close>

definition dg_shape_2d :: "data_generator \<Rightarrow> (error + nat list) \<times> data_generator" where
  "dg_shape_2d g =
     (if dg_keep_time_axis g
      then (let g1 = g\<lparr>dg_keep_time_axis := False\<rparr>
            in case dg_convolution_shape g1 of
                 Inl e \<Rightarrow> (Inl e, g1)
               | Inr s \<Rightarrow> (Inr s, g1\<lparr>dg_keep_time_axis := True\<rparr>))
      else (dg_convolution_shape g, g))"

definition dg_on_epoch_end :: "externals \<Rightarrow> data_generator \<Rightarrow> data_generator" where
  "dg_on_epoch_end ext g =
     (let g1 = g\<lparr>dg_indices := arange (dg_n_sample g)\<rparr>
      in if dg_shuffle g1 then g1\<lparr>dg_indices := np_random_shuffle ext (dg_indices g1)\<rparr>
         else g1)"

definition dg_init ::
  "externals \<Rightarrow> model \<Rightarrow> dg_dataset \<Rightarrow> int \<Rightarrow> bool \<Rightarrow> bool \<Rightarrow> error + data_generator" where
  "dg_init ext m d bs sh rn =
     (if \<not> dd_has_predictors d \<or> \<not> dd_has_targets d
      then Inl (ValueError ''dataset must have predictors and targets variables'')
      else Inr (dg_on_epoch_end ext
             \<lparr>dg_model = m, dg_ds = d, dg_batch_size = bs, dg_shuffle = sh,
              dg_remove_nan = rn, dg_is_convolutional = m_is_convolutional m,
              dg_keep_time_axis = m_is_recurrent m, dg_impute_missing = m_impute m,
              dg_indices = [], dg_n_sample = dd_dim_sample d,
              dg_has_time_step = dd_has_time_step d\<rparr>))"

text \<open>
  \<open>self.ds.isel(sample=samples)\<close>, or \<open>self.ds.isel(sample=slice(None))\<close> for
  an empty \<open>samples\<close>: the rows of both variables.
\<close>

definition dg_isel :: "data_generator \<Rightarrow> int list \<Rightarrow> error + ndarray \<times> ndarray" where
  "dg_isel g samples =
     (if length samples > 0
      then then_do (take_rows (dd_predictors (dg_ds g)) samples) (\<lambda>p.
           then_do (take_rows (dd_targets (dg_ds g)) samples) (\<lambda>t. Inr (p, t)))
      else Inr (dd_predictors (dg_ds g), dd_targets (dg_ds g)))"

definition dg_scale_and_impute_step ::
  "data_generator \<Rightarrow> bool \<Rightarrow> ndarray \<times> ndarray \<Rightarrow> ndarray \<times> ndarray" where
  "dg_scale_and_impute_step g scale_and_impute pt =
     (if scale_and_impute
      then (let pt1 = (if dg_impute_missing g
                       then m_imputer_transform (dg_model g) (fst pt) (snd pt)
                       else pt)
            in m_scaler_transform (dg_model g) (fst pt1) (snd pt1))
      else pt)"

text \<open>The reshape step; this class gives the targets the shape of the predictors.\<close>

definition dg_format_shape ::
  "data_generator \<Rightarrow> nat \<Rightarrow> ndarray \<times> ndarray \<Rightarrow> error + ndarray \<times> ndarray" where
  "dg_format_shape g n pt =
     (if dg_is_convolutional g
      then then_do (dg_convolution_shape g) (\<lambda>sh.
           then_do (reshape (fst pt) n sh) (\<lambda>p3.
           then_do (dg_convolution_shape g) (\<lambda>sh2.
           then_do (reshape (snd pt) n sh2) (\<lambda>t3.
           Inr (p3, t3)))))
      else if dg_keep_time_axis g
      then then_do (dg_dense_shape g) (\<lambda>sh.
           then_do (reshape (fst pt) n sh) (\<lambda>p3.
           then_do (dg_dense_shape g) (\<lambda>sh2.
           then_do (reshape (snd pt) n sh2) (\<lambda>t3.
           Inr (p3, t3)))))
      else Inr pt)"

text \<open>\<open>n_sample\<close> is \<open>ds.predictors.shape[0]\<close> of the selected dataset.\<close>

definition dg_generate ::
  "data_generator \<Rightarrow> int list \<Rightarrow> bool \<Rightarrow> error + ndarray \<times> ndarray" where
  "dg_generate g samples scale_and_impute =
     then_do (dg_isel g samples) (\<lambda>sel.
     then_do (reshape_flat (fst sel) (length (rows (fst sel)))) (\<lambda>p.
     then_do (reshape_flat (snd sel) (length (rows (fst sel)))) (\<lambda>t.
     dg_format_shape g (length (rows (fst sel)))
       (dg_scale_and_impute_step g scale_and_impute
          (if dg_remove_nan g then delete_nan_samples p t else (p, t))))))"

definition dg_len :: "data_generator \<Rightarrow> error + int" where
  "dg_len g =
     (if dg_batch_size g = 0 then Inl ZeroDivisionError
      else Inr \<lceil>real_of_int (dg_n_sample g) / real_of_int (dg_batch_size g)\<rceil>)"

definition dg_builtin_len :: "data_generator \<Rightarrow> error + int" where
  "dg_builtin_len g =
     then_do (dg_len g) (\<lambda>l.
       if l < 0 then Inl (ValueError ''__len__() should return >= 0'') else Inr l)"

definition dg_getitem :: "data_generator \<Rightarrow> int \<Rightarrow> error + ndarray \<times> ndarray" where
  "dg_getitem g index0 =
     then_do (if index0 < 0 then then_do (dg_builtin_len g) (\<lambda>l. Inr (l + index0))
              else Inr index0) (\<lambda>index.
     then_do (dg_builtin_len g) (\<lambda>l.
     if index > l then Inl IndexError
     else dg_generate g
            (py_slice (dg_indices g) (index * dg_batch_size g) ((index + 1) * dg_batch_size g))
            True))"

section \<open>The specification's formulas\<close>

text \<open>
  The derived sample count as the specification writes it, with Python's
  \<open>sequence or 1\<close>: an absent or zero \<open>sequence\<close> counts as one.
\<close>

definition spec_n_sample :: "int \<Rightarrow> int \<Rightarrow> int \<Rightarrow> int option \<Rightarrow> int \<Rightarrow> int" where
  "spec_n_sample tot its ots sq ival =
     tot - its - ots * (case sq of None \<Rightarrow> 1 | Some q \<Rightarrow> (if q = 0 then 1 else q)) + 2 - ival"

text \<open>
  The channel dimension of \<open>convolution_shape\<close>: the second entry in the layout
  with a time axis, \<open>(time_step, channels, y, x)\<close>, the first in the layout
  without, \<open>(channels, y, x)\<close>.
\<close>

definition channel_dim :: "generator \<Rightarrow> nat" where
  "channel_dim g =
     (if keep_time_axis g then convolution_shape g ! 1 else convolution_shape g ! 0)"

text \<open>
  The sample indices that one epoch selects: the slices of batch \<open>0\<close> to batch
  \<open>len - 1\<close>, one after the other.
\<close>

definition epoch_indexes :: "generator \<Rightarrow> int list" where
  "epoch_indexes g = concat (map (batch_indexes g) (map int [0..<nat (len g)]))"

text \<open>The first dimension of an array.\<close>

definition n_rows :: "ndarray \<Rightarrow> nat" where
  "n_rows a = length (rows a)"

text \<open>
  The arrays of a result of \<open>generate\<close>, and the primary predictor array: the one
  array, or the first of the list.
\<close>

fun tensor_list :: "tensors \<Rightarrow> ndarray list" where
  "tensor_list (Single a) = [a]"
| "tensor_list (Many as) = as"

definition primary :: "tensors \<Rightarrow> ndarray" where
  "primary P = hd (tensor_list P)"

text \<open>
  The window of the specification: the observations at the absolute sample indices
  \<open>s, s + 1, \<dots>, s + steps - 1\<close>, in this order, as one flat row.
\<close>

definition window :: "ndarray \<Rightarrow> int \<Rightarrow> nat \<Rightarrow> cell list" where
  "window vals s steps = concat (map (\<lambda>n. rows vals ! nat (s + int n)) [0..<steps])"

text \<open>
  The contract of the specification for the two transforms of the model: both are
  shape-preserving.
\<close>

definition shape_preserving :: "(ndarray \<Rightarrow> ndarray \<Rightarrow> ndarray \<times> ndarray) \<Rightarrow> bool" where
  "shape_preserving f =
     (\<forall>p t. np_shape (fst (f p t)) = np_shape p \<and> np_shape (snd (f p t)) = np_shape t)"

text \<open>
  Two instances have the same configuration when they agree on every attribute
  that loading does not assign: all but the dataset, the canonical array, the two
  views and the loaded flag.
\<close>

definition same_config :: "generator \<Rightarrow> generator \<Rightarrow> bool" where
  "same_config g g' =
     (model g' = model g \<and> add_insolation g' = add_insolation g
      \<and> batch_size g' = batch_size g \<and> shuffle g' = shuffle g
      \<and> remove_nan g' = remove_nan g \<and> is_convolutional g' = is_convolutional g
      \<and> keep_time_axis g' = keep_time_axis g \<and> impute_missing g' = impute_missing g
      \<and> indices g' = indices g \<and> sequence g' = sequence g \<and> n_sample g' = n_sample g
      \<and> rank g' = rank g \<and> input_time_steps g' = input_time_steps g
      \<and> output_time_steps g' = output_time_steps g \<and> interval g' = interval g
      \<and> insolation_da g' = insolation_da g \<and> load g' = load g)"

text \<open>
  The layout that the model asks for, for a predictor array and a target array:
  the convolutional shapes, or the shapes with a time axis, or flat with one row
  per sample (two-dimensional).
\<close>

definition in_layout :: "generator \<Rightarrow> ndarray \<Rightarrow> ndarray \<Rightarrow> bool" where
  "in_layout g p t =
     (if is_convolutional g
      then inner p = convolution_shape g \<and> inner t = output_convolution_shape g
      else if keep_time_axis g
      then dense_shape g = Inr (inner p) \<and> output_dense_shape g = Inr (inner t)
      else length (np_shape p) = 2 \<and> length (np_shape t) = 2)"

text \<open>The same for a \<open>DataGenerator\<close>, which shapes the targets as the predictors.\<close>

definition dg_in_layout :: "data_generator \<Rightarrow> ndarray \<Rightarrow> ndarray \<Rightarrow> bool" where
  "dg_in_layout g p t =
     (if dg_is_convolutional g
      then dg_convolution_shape g = Inr (inner p) \<and> dg_convolution_shape g = Inr (inner t)
      else if dg_keep_time_axis g
      then dg_dense_shape g = Inr (inner p) \<and> dg_dense_shape g = Inr (inner t)
      else length (np_shape p) = 2 \<and> length (np_shape t) = 2)"

section \<open>Example instances\<close>

text \<open>
  A dataset of \<open>n\<close> samples with one variable on a one by two grid; sample \<open>k\<close>
  holds the values \<open>10 k\<close> and \<open>10 k + 1\<close>. Its selection returns the whole array.
\<close>

definition ex_rows :: "nat \<Rightarrow> cell list list" where
  "ex_rows n = map (\<lambda>k. [Num (real (10 * k)), Num (real (10 * k + 1))]) [0..<n]"

definition ex_sol :: "nat \<Rightarrow> ndarray" where
  "ex_sol n = \<lparr>inner = [1, 2], rows = map (\<lambda>k. [Num (real k), Num (real k)]) [0..<n]\<rparr>"

definition ex_ds :: "nat \<Rightarrow> dataset" where
  "ex_ds n =
     \<lparr>ds_has_predictors = True, ds_dim_sample = int n, ds_has_time_step = False,
      ds_predictors = \<lparr>da_values = \<lparr>inner = [1, 1, 2], rows = ex_rows n\<rparr>, in_memory = False\<rparr>,
      ds_isel_last_time_step = (\<lambda>x. x), ds_has_varlev = True, ds_varlev = [PStr ''z500''],
      ds_variable = [], ds_level = [], ds_sel = (\<lambda>s x. Inr x), ds_isel_varlev = (\<lambda>k x. x),
      ds_insolation = (\<lambda>daily. ex_sol n), ds_in_memory = False\<rparr>"

text \<open>A model with the given layout flags whose scaler and imputer change nothing.\<close>

definition ex_model :: "bool \<Rightarrow> bool \<Rightarrow> model" where
  "ex_model c r =
     \<lparr>m_is_convolutional = c, m_is_recurrent = r, m_impute = False,
      m_scaler_transform = (\<lambda>p t. (p, t)), m_imputer_transform = (\<lambda>p t. (p, t))\<rparr>"

text \<open>A \<open>to_bool\<close> that accepts the booleans only, and a shuffle that reverses.\<close>

definition ex_ext :: externals where
  "ex_ext =
     \<lparr>to_bool = (\<lambda>v. case v of PBool b \<Rightarrow> Some b | _ \<Rightarrow> None), np_random_shuffle = rev\<rparr>"

text \<open>The scenario of the specification: two input steps, one output step, batches of 32.\<close>

definition ex_args_100 :: init_args where
  "ex_args_100 =
     default_args\<lparr>arg_input_time_steps := 2, arg_output_time_steps := 1, arg_interval := 1,
                  arg_sequence := None, arg_batch_size := 32\<rparr>"

text \<open>A small instance: six samples, two input steps, batches of two.\<close>

definition ex_args_small :: init_args where
  "ex_args_small = default_args\<lparr>arg_input_time_steps := 2, arg_batch_size := 2\<rparr>"

text \<open>The generator that the constructor returns on the example dataset.\<close>

definition ex_gen :: "bool \<Rightarrow> bool \<Rightarrow> nat \<Rightarrow> init_args \<Rightarrow> generator" where
  "ex_gen c r n a = projr (init ex_ext (ex_model c r) (ex_ds n) a)"

definition ex_gen_insol :: generator where
  "ex_gen_insol = ex_gen True False 6 (ex_args_small\<lparr>arg_add_insolation := PBool True\<rparr>)"

definition ex_gen_plain :: generator where
  "ex_gen_plain = ex_gen True False 6 ex_args_small"

text \<open>The small instance with a boolean \<open>load\<close>: true, and false.\<close>

definition ex_args_bool :: init_args where
  "ex_args_bool = ex_args_small\<lparr>arg_load := PBool True\<rparr>"

definition ex_args_lazy :: init_args where
  "ex_args_lazy = ex_args_small\<lparr>arg_load := PBool False\<rparr>"

text \<open>The small instance with shuffling.\<close>

definition ex_args_shuffle :: init_args where
  "ex_args_shuffle = ex_args_small\<lparr>arg_shuffle := True\<rparr>"

text \<open>The example dataset with a NaN in its first sample, and the generators on it.\<close>

definition ex_ds_nan :: dataset where
  "ex_ds_nan =
     (ex_ds 6)\<lparr>ds_predictors :=
       \<lparr>da_values = \<lparr>inner = [1, 1, 2], rows = [NaN, Num 1] # tl (ex_rows 6)\<rparr>,
        in_memory = False\<rparr>\<rparr>"

definition ex_gen_nan :: "init_args \<Rightarrow> generator" where
  "ex_gen_nan a = projr (init ex_ext (ex_model False False) ex_ds_nan a)"

text \<open>The small instance without NaN removal.\<close>

definition ex_args_keep_nan :: init_args where
  "ex_args_keep_nan = ex_args_small\<lparr>arg_remove_nan := False\<rparr>"

text \<open>
  The small instance with two output steps, an interval of two and two sequence
  steps; NaN removal stays on, as by default.
\<close>

definition ex_args_windows :: init_args where
  "ex_args_windows =
     ex_args_small\<lparr>arg_output_time_steps := 2, arg_interval := 2, arg_sequence := Some 2\<rparr>"

text \<open>A model whose transforms would change the arrays: they swap and copy them.\<close>

definition ex_model_swap :: model where
  "ex_model_swap =
     \<lparr>m_is_convolutional = False, m_is_recurrent = False, m_impute = True,
      m_scaler_transform = (\<lambda>p t. (t, p)), m_imputer_transform = (\<lambda>p t. (t, t))\<rparr>"

text \<open>
  A \<open>DataGenerator\<close> on four samples with a time-step axis of length one, in
  batches of two.
\<close>

definition ex_dds :: dg_dataset where
  "ex_dds =
     \<lparr>dd_has_predictors = True, dd_has_targets = True, dd_dim_sample = 4,
      dd_has_time_step = True,
      dd_predictors = \<lparr>inner = [1, 1, 1, 2], rows = take 4 (ex_rows 6)\<rparr>,
      dd_targets = \<lparr>inner = [1, 1, 1, 2], rows = drop 2 (ex_rows 6)\<rparr>\<rparr>"

definition ex_dgen :: "bool \<Rightarrow> bool \<Rightarrow> bool \<Rightarrow> data_generator" where
  "ex_dgen c r rn = projr (dg_init ex_ext (ex_model c r) ex_dds 2 False rn)"


section \<open>Verification\<close>

subsection \<open>Results of fallible steps\<close>

lemma then_do_Inr_iff: "then_do m f = Inr y \<longleftrightarrow> (\<exists>v. m = Inr v \<and> f v = Inr y)"
  by (cases m) auto

lemma then_do_Inl_iff: "then_do m f = Inl e \<longleftrightarrow> m = Inl e \<or> (\<exists>v. m = Inr v \<and> f v = Inl e)"
  by (cases m) auto

subsection \<open>Fields that construction and loading leave alone\<close>

lemma on_epoch_end_fields:
  "n_sample (on_epoch_end ext g) = n_sample g"
  "batch_size (on_epoch_end ext g) = batch_size g"
  by (simp_all add: on_epoch_end_def Let_def)

lemma load_minimal_fields:
  assumes "load_minimal g = Inr g'"
  shows "n_sample g' = n_sample g \<and> batch_size g' = batch_size g"
  using assms
  by (auto simp: load_minimal_def sel_views_def then_do_Inr_iff Let_def
           split: option.splits if_splits)

lemma load_data_fields:
  assumes "load_data g = Inr g'"
  shows "n_sample g' = n_sample g \<and> batch_size g' = batch_size g"
  using assms
  by (auto simp: load_data_def load_views_def load_full_def sel_views_def then_do_Inr_iff
           dest!: load_minimal_fields split: if_splits)

lemma check_args_Inr:
  "check_args a = Inr u \<Longrightarrow>
     0 < arg_batch_size a \<and> (\<forall>q. arg_sequence a = Some q \<longrightarrow> 0 < q)"
  by (auto simp: check_args_def then_do_Inr_iff split: if_splits option.splits)

lemma pregenerate_fields:
  "pregenerate_insolation g = Inr g' \<Longrightarrow>
     n_sample g' = n_sample g \<and> batch_size g' = batch_size g"
  by (auto simp: pregenerate_insolation_def Let_def split: if_splits)

lemma init_fields:
  assumes "init ext m d a = Inr g"
  shows "n_sample g = (case arg_sequence a of
                      Some q \<Rightarrow> ds_dim_sample d - arg_input_time_steps a
                                  - arg_output_time_steps a * q + 2 - arg_interval a
                    | None \<Rightarrow> ds_dim_sample d - arg_input_time_steps a
                                  - arg_output_time_steps a + 2 - arg_interval a)
    \<and> batch_size g = nat (arg_batch_size a)
    \<and> 0 < arg_batch_size a
    \<and> (\<forall>q. arg_sequence a = Some q \<longrightarrow> 0 < q)"
proof -
  from assms obtain u l insol ida oda g1 where
    chk: "check_args a = Inr u" and
    g1: "(if arg_force_load a then load_data (new_generator m d a l insol ida oda)
                 else Inr (new_generator m d a l insol ida oda)) = Inr g1" and
    g: "pregenerate_insolation (on_epoch_end ext g1) = Inr g"
    unfolding init_def by (cases "ds_has_predictors d") (auto simp: then_do_Inr_iff)
  from g1 have "n_sample g1 = n_sample (new_generator m d a l insol ida oda)
     \<and> batch_size g1 = batch_size (new_generator m d a l insol ida oda)"
    by (auto dest: load_data_fields split: if_splits)
  with pregenerate_fields[OF g] check_args_Inr[OF chk]
  show ?thesis by (simp add: on_epoch_end_fields new_generator_def)
qed

lemma ex_init_100:
  "\<exists>g. init ex_ext (ex_model False False) (ex_ds 100) ex_args_100 = Inr g"
  by (simp add: init_def ex_ext_def ex_model_def ex_ds_def ex_args_100_def default_args_def
        check_load_def check_insolation_def Let_def default_sel_def on_epoch_end_def
        check_args_def canonical_def pregenerate_insolation_def new_generator_def)

subsection \<open>Shapes\<close>

lemma keep_time_axis_same: "keep_time_axis g = b \<Longrightarrow> g\<lparr>keep_time_axis := b\<rparr> = g"
  by simp

subsection \<open>The load argument\<close>

lemma load_data_loaded: "load_data g = Inr g' \<Longrightarrow> is_loaded g'"
  by (auto simp: load_data_def then_do_Inr_iff)

lemma generate_post_state:
  "generate g s f = Inr (b, g') \<Longrightarrow> ensure_loaded g = Inr g'"
  by (auto simp: generate_def then_do_Inr_iff)

lemma ensure_loaded_loaded: "ensure_loaded g = Inr g' \<Longrightarrow> is_loaded g'"
  by (auto simp: ensure_loaded_def dest: load_data_loaded split: if_splits)

lemma load_minimal_load: "load_minimal g = Inr g' \<Longrightarrow> load g' = load g \<and> is_loaded g' = is_loaded g"
  by (auto simp: load_minimal_def sel_views_def then_do_Inr_iff Let_def
           split: option.splits if_splits)

lemma load_data_load: "load_data g = Inr g' \<Longrightarrow> load g' = load g"
  by (auto simp: load_data_def load_views_def load_full_def sel_views_def then_do_Inr_iff
           dest!: load_minimal_load split: if_splits)

lemma init_load:
  assumes "init ext m d a = Inr g"
  shows "check_load (arg_load a) = Inr (load g) \<and> (\<not> arg_force_load a \<longrightarrow> \<not> is_loaded g)"
proof -
  from assms obtain l insol ida oda g1 where
    l: "check_load (arg_load a) = Inr l" and
    g1: "(if arg_force_load a then load_data (new_generator m d a l insol ida oda)
                 else Inr (new_generator m d a l insol ida oda)) = Inr g1" and
    g: "pregenerate_insolation (on_epoch_end ext g1) = Inr g"
    unfolding init_def by (cases "ds_has_predictors d") (auto simp: then_do_Inr_iff)
  from g1 have "load g1 = l \<and> (\<not> arg_force_load a \<longrightarrow> \<not> is_loaded g1)"
    by (auto dest: load_data_load simp: new_generator_def split: if_splits)
  moreover from g have "load g = load g1 \<and> is_loaded g = is_loaded g1"
    by (auto simp: pregenerate_insolation_def on_epoch_end_def Let_def split: if_splits)
  ultimately show ?thesis using l by simp
qed

lemma init_load_error:
  assumes "ds_has_predictors d" "check_args a = Inr u" "check_load (arg_load a) = Inl e"
  shows "init ext m d a = Inl e"
  using assms by (simp add: init_def)

lemma not_isl_collapse: "\<not> isl x \<Longrightarrow> x = Inr (projr x)"
  by (cases x) auto

subsection \<open>Batches of an epoch\<close>

lemma py_slice_nat:
  "a \<le> c \<Longrightarrow> py_slice xs (int a) (int c) = take (c - a) (drop a xs)"
  by (auto simp: py_slice_def slice_bound_def min_def)

lemma concat_slices:
  "concat (map (\<lambda>i. take b (drop (i * b) xs)) [0..<k]) = take (k * b) xs"
proof (induction k)
  case 0
  then show ?case by simp
next
  case (Suc k)
  have "take (k * b) xs @ take b (drop (k * b) xs) = take (k * b + b) xs"
    by (simp add: take_add)
  with Suc show ?case by (simp add: add.commute)
qed

lemma batch_indexes_nat:
  "batch_indexes g (int i) = take (batch_size g) (drop (i * batch_size g) (indices g))"
proof -
  let ?b = "batch_size g"
  have e1: "int i * int ?b = int (i * ?b)" by simp
  have e2: "(int i + 1) * int ?b = int ((i + 1) * ?b)" by (simp add: algebra_simps)
  have "batch_indexes g (int i) = py_slice (indices g) (int (i * ?b)) (int ((i + 1) * ?b))"
    unfolding batch_indexes_def by (simp only: e1 e2)
  also have "\<dots> = take ((i + 1) * ?b - i * ?b) (drop (i * ?b) (indices g))"
    by (rule py_slice_nat) simp
  finally show ?thesis by simp
qed

lemma epoch_indexes_take:
  "epoch_indexes g = take (nat (len g) * batch_size g) (indices g)"
  by (simp add: epoch_indexes_def comp_def batch_indexes_nat concat_slices)

lemma len_covers:
  assumes "0 < batch_size g"
  shows "n_sample g \<le> len g * int (batch_size g)"
proof -
  have "real_of_int (n_sample g) / real (batch_size g) \<le> of_int (len g)"
    unfolding len_def by (rule le_of_int_ceiling)
  then have "real_of_int (n_sample g) \<le> of_int (len g) * real (batch_size g)"
    using assms by (simp add: field_simps)
  then have "real_of_int (n_sample g) \<le> real_of_int (len g * int (batch_size g))" by simp
  then show ?thesis by linarith
qed

lemma len_covers_nat:
  assumes "0 < batch_size g"
  shows "nat (n_sample g) \<le> nat (len g) * batch_size g"
proof (cases "0 < n_sample g")
  case True
  from len_covers[OF assms] True have "0 < len g * int (batch_size g)" by linarith
  then have "0 \<le> len g" using assms by (simp add: zero_less_mult_iff)
  then have "int (nat (len g) * batch_size g) = len g * int (batch_size g)" by simp
  with len_covers[OF assms] show ?thesis by linarith
next
  case False
  then show ?thesis by simp
qed

lemma mset_arange: "mset (arange n) = mset_set {0..<n}"
proof -
  have "mset (arange n) = image_mset int (mset [0..<nat n])"
    unfolding arange_def by (simp only: mset_map)
  also have "\<dots> = image_mset int (mset_set {0..<nat n})"
    by (simp only: mset_upt)
  also have "\<dots> = mset_set (int ` {0..<nat n})"
    by (rule image_mset_mset_set) simp
  also have "int ` {0..<nat n} = {0..<n}"
    by (cases "0 \<le> n") (auto simp: image_int_atLeastLessThan)
  finally show ?thesis .
qed

lemma epoch_indexes_all:
  assumes "0 < batch_size g" "length (indices g) = nat (n_sample g)"
  shows "epoch_indexes g = indices g"
  using len_covers_nat[OF assms(1)] assms(2) by (simp add: epoch_indexes_take)

lemma on_epoch_end_indices:
  "indices (on_epoch_end ext g) =
     (if shuffle g then np_random_shuffle ext (arange (n_sample g)) else arange (n_sample g))"
  by (simp add: on_epoch_end_def Let_def)

lemma init_indices:
  assumes "init ext m d a = Inr g"
  shows "indices g = indices (on_epoch_end ext g) \<and> 0 < batch_size g"
proof -
  from assms obtain g1 where
    g: "pregenerate_insolation (on_epoch_end ext g1) = Inr g"
    unfolding init_def by (cases "ds_has_predictors d") (auto simp: then_do_Inr_iff)
  then have "indices g = indices (on_epoch_end ext g1) \<and> n_sample g = n_sample g1 \<and> shuffle g = shuffle g1"
    by (auto simp: pregenerate_insolation_def on_epoch_end_def Let_def split: if_splits)
  moreover have "0 < batch_size g" using init_fields[OF assms] by simp
  ultimately show ?thesis by (simp add: on_epoch_end_indices)
qed

lemma epoch_partition:
  assumes perm: "mset (np_random_shuffle ext (arange (n_sample g))) = mset (arange (n_sample g))"
    and b: "0 < batch_size g"
  shows "mset (epoch_indexes (on_epoch_end ext g)) = mset_set {0..<n_sample g}"
proof -
  let ?g = "on_epoch_end ext g"
  have m: "mset (indices ?g) = mset (arange (n_sample g))"
    using perm by (simp add: on_epoch_end_indices)
  then have "length (indices ?g) = length (arange (n_sample g))"
    by (rule mset_eq_length)
  then have "length (indices ?g) = nat (n_sample ?g)"
    by (simp add: arange_def on_epoch_end_fields)
  moreover have "0 < batch_size ?g" using b by (simp add: on_epoch_end_fields)
  ultimately have "epoch_indexes ?g = indices ?g" by (simp add: epoch_indexes_all)
  with m show ?thesis by (simp add: mset_arange)
qed

subsection \<open>The batch index equal to the batch count\<close>

lemma batch_indexes_at_len:
  assumes "0 \<le> len g" "length (indices g) \<le> nat (len g) * batch_size g"
  shows "batch_indexes g (len g) = []"
  using batch_indexes_nat[of g "nat (len g)"] assms by simp

lemma getitem_at_len:
  assumes "0 \<le> len g" "length (indices g) \<le> nat (len g) * batch_size g" "0 < batch_size g"
  shows "getitem g (len g) = generate g [] True"
  using assms by (simp add: getitem_def builtin_len_def batch_indexes_at_len)

lemma init_getitem_at_len:
  assumes "init ext m d a = Inr g" "length (np_random_shuffle ext (arange (n_sample g))) = length (arange (n_sample g))"
    "0 \<le> len g"
  shows "getitem g (len g) = generate g [] True"
proof -
  from init_indices[OF assms(1)] have e: "indices g = indices (on_epoch_end ext g)"
    and b: "0 < batch_size g" by simp_all
  have "length (indices g) = nat (n_sample g)"
    using assms(2) by (simp add: e on_epoch_end_indices arange_def)
  with len_covers_nat[OF b] assms(3) b show ?thesis by (simp add: getitem_at_len)
qed

subsection \<open>Arrays\<close>

lemma length_chunk [simp]: "length (chunk n k xs) = n"
  by (induction n arbitrary: xs) simp_all

lemma chunk_concat:
  "length xss = n \<Longrightarrow> list_all (\<lambda>r. length r = k) xss \<Longrightarrow> chunk n k (concat xss) = xss"
  by (induction xss arbitrary: n) auto

lemma reshape_Inr:
  assumes "reshape a n d = Inr b"
  shows "length (rows b) = n \<and> inner b = d \<and> n * prod_list d = np_size a
         \<and> rows b = chunk n (prod_list d) (concat (rows a))"
  using assms by (auto simp: reshape_def split: if_splits)

lemma reshape_flat_Inr:
  assumes "reshape_flat a n = Inr b"
  shows "length (rows b) = n \<and> inner b = [np_size a div n] \<and> 0 < n \<and> n dvd np_size a
         \<and> rows b = chunk n (np_size a div n) (concat (rows a))"
  using assms
  by (auto simp: reshape_flat_def dest!: reshape_Inr split: if_splits)

lemma collect_Inr:
  "collect f xs = Inr ys \<Longrightarrow> list_all2 (\<lambda>x y. f x = Inr y) xs ys"
  by (induction xs arbitrary: ys) (auto simp: then_do_Inr_iff)

lemma take_rows_Inr:
  assumes "take_rows a idx = Inr b"
  shows "inner b = inner a \<and> list_all (in_bounds (length (rows a))) idx
         \<and> rows b = map (\<lambda>i. rows a ! wrap_index (length (rows a)) i) idx"
  using assms by (auto simp: take_rows_def split: if_splits)

lemma concatenate1_Inr:
  assumes "concatenate1 as = Inr b"
  shows "as \<noteq> [] \<and> list_all (\<lambda>c. length (rows c) = length (rows (hd as))) as
         \<and> inner b = sum_list (map (\<lambda>c. hd (inner c)) as) # tl (inner (hd as))
         \<and> rows b = map (\<lambda>i. concat (map (\<lambda>c. rows c ! i) as)) [0..<length (rows (hd as))]"
  using assms
  by (cases as) (auto simp: concatenate1_def list_all_iff split: if_splits)

lemma step_block_Inr:
  assumes "step_block vals samples off tw n = Inr c"
  shows "rows c = map (\<lambda>s. rows vals ! wrap_index (length (rows vals)) (s + off + int n)) samples
         \<and> inner c = (if tw then [1, 1] else [1]) @ inner vals
         \<and> list_all (\<lambda>s. in_bounds (length (rows vals)) (s + off + int n)) samples"
  using assms
  by (auto simp: step_block_def then_do_Inr_iff newaxis_def list_all_iff comp_def
           dest!: take_rows_Inr)

lemma stack_steps_Inr:
  assumes "stack_steps vals samples off steps tw = Inr a"
  shows "0 < steps"
    and "length (rows a) = length samples"
    and "inner a = steps # (if tw then [1] else []) @ inner vals"
    and "\<And>i. i < length samples \<Longrightarrow>
           rows a ! i = concat (map (\<lambda>n. rows vals ! wrap_index (length (rows vals))
                                                (samples ! i + off + int n)) [0..<steps])"
    and "\<And>i n. i < length samples \<Longrightarrow> n < steps \<Longrightarrow>
           in_bounds (length (rows vals)) (samples ! i + off + int n)"
proof -
  from assms obtain cs where
    cs: "collect (step_block vals samples off tw) [0..<steps] = Inr cs" and
    a: "concatenate1 cs = Inr a"
    by (auto simp: stack_steps_def then_do_Inr_iff)
  from collect_Inr[OF cs] have len: "length cs = steps"
    and each: "\<And>j. j < steps \<Longrightarrow> step_block vals samples off tw j = Inr (cs ! j)"
    by (auto simp: list_all2_conv_all_nth)
  note c1 = concatenate1_Inr[OF a]
  from c1 len show pos: "0 < steps" by auto
  have rws: "\<And>j. j < steps \<Longrightarrow>
      rows (cs ! j) = map (\<lambda>s. rows vals ! wrap_index (length (rows vals)) (s + off + int j)) samples"
    using step_block_Inr[OF each] by simp
  have hd0: "hd cs = cs ! 0" using c1 by (simp add: hd_conv_nth)
  have l0: "length (rows (hd cs)) = length samples" using rws[OF pos] hd0 by simp
  with c1 show "length (rows a) = length samples" by simp
  have inn: "\<And>j. j < steps \<Longrightarrow> inner (cs ! j) = (if tw then [1, 1] else [1]) @ inner vals"
    using step_block_Inr[OF each] by simp
  have "map (\<lambda>c. hd (inner c)) cs = map (\<lambda>j. hd (inner (cs ! j))) [0..<steps]"
    using len by (simp add: list_eq_iff_nth_eq)
  also have "\<dots> = map (\<lambda>j. 1) [0..<steps]"
    using inn by auto
  finally have "sum_list (map (\<lambda>c. hd (inner c)) cs) = steps"
    by (simp add: sum_list_triv)
  moreover have "tl (inner (hd cs)) = (if tw then [1] else []) @ inner vals"
    using inn[OF pos] hd0 by simp
  ultimately show "inner a = steps # (if tw then [1] else []) @ inner vals"
    using c1 by simp
  show "rows a ! i = concat (map (\<lambda>n. rows vals ! wrap_index (length (rows vals))
                                                (samples ! i + off + int n)) [0..<steps])"
    if i: "i < length samples" for i
  proof -
    have "rows a ! i = concat (map (\<lambda>c. rows c ! i) cs)"
      using c1 l0 i by simp
    also have "map (\<lambda>c. rows c ! i) cs = map (\<lambda>j. rows (cs ! j) ! i) [0..<steps]"
      using len by (simp add: list_eq_iff_nth_eq)
    also have "\<dots> = map (\<lambda>n. rows vals ! wrap_index (length (rows vals))
                                  (samples ! i + off + int n)) [0..<steps]"
      using rws i by auto
    finally show ?thesis .
  qed
  show "in_bounds (length (rows vals)) (samples ! i + off + int n)"
    if "i < length samples" "n < steps" for i n
    using step_block_Inr[OF each[OF that(2)]] that(1) by (auto simp: list_all_length)
qed

subsection \<open>The steps of post-processing\<close>

lemma length_drop_rows:
  "length (drop_rows bad xs) = length (filter (\<lambda>i. \<not> bad i) [0..<length xs])"
proof -
  have "length (drop_rows bad xs)
        = length (filter ((\<lambda>i. \<not> bad i) \<circ> fst) (zip [0..<length xs] xs))"
    by (simp add: drop_rows_def comp_def case_prod_unfold)
  also have "\<dots> = length (filter (\<lambda>i. \<not> bad i) (map fst (zip [0..<length xs] xs)))"
    by (simp only: filter_map length_map)
  finally show ?thesis by simp
qed

lemma length_drop_rows_le: "length (drop_rows bad xs) \<le> length xs"
  by (simp add: length_drop_rows) (metis length_filter_le length_upt diff_zero)

lemma delete_nan_samples_rows:
  "n_rows (fst (delete_nan_samples p t)) \<le> n_rows p"
  "n_rows (snd (delete_nan_samples p t)) \<le> n_rows t"
  "n_rows p = n_rows t \<Longrightarrow>
     n_rows (fst (delete_nan_samples p t)) = n_rows (snd (delete_nan_samples p t))"
  "inner (fst (delete_nan_samples p t)) = inner p"
  "inner (snd (delete_nan_samples p t)) = inner t"
proof -
  show "n_rows (fst (delete_nan_samples p t)) \<le> n_rows p"
       "n_rows (snd (delete_nan_samples p t)) \<le> n_rows t"
    by (simp_all add: delete_nan_samples_def Let_def n_rows_def length_drop_rows_le)
  show "n_rows (fst (delete_nan_samples p t)) = n_rows (snd (delete_nan_samples p t))"
    if "n_rows p = n_rows t"
    using that by (simp add: delete_nan_samples_def Let_def n_rows_def length_drop_rows)
  show "inner (fst (delete_nan_samples p t)) = inner p"
       "inner (snd (delete_nan_samples p t)) = inner t"
    by (simp_all add: delete_nan_samples_def Let_def)
qed

lemma shape_preservingD:
  assumes "shape_preserving f" "f p t = (p', t')"
  shows "n_rows p' = n_rows p" "n_rows t' = n_rows t" "inner p' = inner p" "inner t' = inner t"
proof -
  from assms have "np_shape p' = np_shape p \<and> np_shape t' = np_shape t"
    unfolding shape_preserving_def by (metis fst_conv snd_conv)
  then show "n_rows p' = n_rows p" "n_rows t' = n_rows t" "inner p' = inner p" "inner t' = inner t"
    by (simp_all add: np_shape_def n_rows_def)
qed

lemma remove_nan_step_rows:
  "n_rows (fst (remove_nan_step g p t)) \<le> n_rows p"
  "n_rows (snd (remove_nan_step g p t)) \<le> n_rows t"
  "n_rows p = n_rows t \<Longrightarrow> n_rows (fst (remove_nan_step g p t)) = n_rows (snd (remove_nan_step g p t))"
  "inner (fst (remove_nan_step g p t)) = inner p"
  "inner (snd (remove_nan_step g p t)) = inner t"
  "\<not> remove_nan g \<Longrightarrow> remove_nan_step g p t = (p, t)"
  by (simp_all add: remove_nan_step_def delete_nan_samples_rows)

lemma scale_and_impute_step_rows:
  assumes "shape_preserving (m_scaler_transform (model g))"
          "shape_preserving (m_imputer_transform (model g))"
  shows "n_rows (fst (scale_and_impute_step g sai pt)) = n_rows (fst pt)
       \<and> n_rows (snd (scale_and_impute_step g sai pt)) = n_rows (snd pt)
       \<and> inner (fst (scale_and_impute_step g sai pt)) = inner (fst pt)
       \<and> inner (snd (scale_and_impute_step g sai pt)) = inner (snd pt)"
proof -
  have *: "n_rows (fst (f a b)) = n_rows a \<and> n_rows (snd (f a b)) = n_rows b
         \<and> inner (fst (f a b)) = inner a \<and> inner (snd (f a b)) = inner b"
    if "shape_preserving f" for f a b
    using shape_preservingD[OF that, of a b "fst (f a b)" "snd (f a b)"] by simp
  show ?thesis
    using *[OF assms(1)] *[OF assms(2)] by (simp add: scale_and_impute_step_def Let_def)
qed

lemma scale_and_impute_step_False: "scale_and_impute_step g False pt = pt"
  by (simp add: scale_and_impute_step_def)

lemma format_shape_layout:
  assumes "format_shape g n pt = Inr (p', t')" "is_convolutional g \<or> keep_time_axis g"
  shows "n_rows p' = n \<and> n_rows t' = n"
  using assms
  by (auto simp: format_shape_def then_do_Inr_iff n_rows_def dest!: reshape_Inr split: if_splits)

lemma format_shape_flat:
  assumes "\<not> is_convolutional g" "\<not> keep_time_axis g"
  shows "format_shape g n pt = Inr pt"
  using assms by (simp add: format_shape_def)

lemma post_process_rows:
  assumes run: "post_process g sai n p t = Inr (p', t')"
    and sp: "shape_preserving (m_scaler_transform (model g))"
            "shape_preserving (m_imputer_transform (model g))"
    and t: "n_rows t = n" and p: "n_rows p \<le> n"
  shows "n_rows p' \<le> n" and "n_rows t' \<le> n"
    and "(is_convolutional g \<or> keep_time_axis g \<or> \<not> remove_nan g) \<Longrightarrow> n_rows p = n
           \<Longrightarrow> n_rows p' = n \<and> n_rows t' = n"
    and "n_rows p = n \<Longrightarrow> n_rows p' = n_rows t'"
proof -
  let ?a = "remove_nan_step g p t"
  let ?b = "scale_and_impute_step g sai ?a"
  from run have f: "format_shape g n ?b = Inr (p', t')" by (simp add: post_process_def)
  note sc = scale_and_impute_step_rows[OF sp, where sai = sai and pt = ?a]
  note nn = remove_nan_step_rows[where g = g and p = p and t = t]
  have b1: "n_rows (fst ?b) \<le> n" "n_rows (snd ?b) \<le> n"
    using sc nn(1,2) t p by simp_all
  have b2: "n_rows (fst ?b) = n_rows (snd ?b)" if "n_rows p = n"
    using sc nn(3) t that by simp
  have b3: "n_rows (fst ?b) = n \<and> n_rows (snd ?b) = n" if "\<not> remove_nan g" "n_rows p = n"
    using sc nn(6)[OF that(1)] t that(2) by simp
  have "n_rows p' \<le> n \<and> n_rows t' \<le> n
      \<and> ((is_convolutional g \<or> keep_time_axis g \<or> \<not> remove_nan g) \<and> n_rows p = n
            \<longrightarrow> n_rows p' = n \<and> n_rows t' = n)
      \<and> (n_rows p = n \<longrightarrow> n_rows p' = n_rows t')"
  proof (cases "is_convolutional g \<or> keep_time_axis g")
    case True
    from format_shape_layout[OF f True] show ?thesis by simp
  next
    case False
    then have "format_shape g n ?b = Inr ?b" by (simp add: format_shape_flat)
    with f have e: "fst ?b = p'" "snd ?b = t'" by simp_all
    from b1 b2 b3 False show ?thesis unfolding e by blast
  qed
  then show "n_rows p' \<le> n" and "n_rows t' \<le> n"
    and "(is_convolutional g \<or> keep_time_axis g \<or> \<not> remove_nan g) \<Longrightarrow> n_rows p = n
           \<Longrightarrow> n_rows p' = n \<and> n_rows t' = n"
    and "n_rows p = n \<Longrightarrow> n_rows p' = n_rows t'"
    by blast+
qed

lemma seq_loop_rows:
  assumes "seq_loop g sai samples n ss p targets = Inr (p', ts)"
    and "shape_preserving (m_scaler_transform (model g))"
        "shape_preserving (m_imputer_transform (model g))"
    and "n_rows p \<le> n"
  shows "n_rows p' \<le> n \<and>
         (\<exists>new. ts = targets @ new \<and> length new = length ss
            \<and> list_all (\<lambda>t. n_rows t \<le> n) new
            \<and> ((is_convolutional g \<or> keep_time_axis g \<or> \<not> remove_nan g) \<and> n_rows p = n
                 \<longrightarrow> n_rows p' = n \<and> list_all (\<lambda>t. n_rows t = n) new))"
  using assms
proof (induction ss arbitrary: p targets)
  case Nil
  then show ?case by simp
next
  case (Cons s ss)
  from Cons.prems(1) obtain t t1 pt where
    t1: "reshape_flat t n = Inr t1" and
    pp: "post_process g sai n p t1 = Inr pt" and
    rest: "seq_loop g sai samples n ss (fst pt) (targets @ [snd pt]) = Inr (p', ts)"
    by (auto simp: then_do_Inr_iff)
  from reshape_flat_Inr[OF t1] have t1n: "n_rows t1 = n" by (simp add: n_rows_def)
  from pp have pp': "post_process g sai n p t1 = Inr (fst pt, snd pt)" by simp
  note R = post_process_rows[OF pp' Cons.prems(2,3) t1n Cons.prems(4)]
  from Cons.IH[OF rest Cons.prems(2,3) R(1)] obtain new where
    a: "n_rows p' \<le> n" and
    new: "ts = (targets @ [snd pt]) @ new" "length new = length ss"
         "list_all (\<lambda>t. n_rows t \<le> n) new" and
    good: "(is_convolutional g \<or> keep_time_axis g \<or> \<not> remove_nan g) \<and> n_rows (fst pt) = n
                 \<longrightarrow> n_rows p' = n \<and> list_all (\<lambda>t. n_rows t = n) new"
    by blast
  let ?new = "snd pt # new"
  have "ts = targets @ ?new" "length ?new = length (s # ss)"
       "list_all (\<lambda>t. n_rows t \<le> n) ?new"
    using new R(2) by simp_all
  moreover have "n_rows p' = n \<and> list_all (\<lambda>t. n_rows t = n) ?new"
    if "(is_convolutional g \<or> keep_time_axis g \<or> \<not> remove_nan g) \<and> n_rows p = n"
    using R(3) good that by simp
  ultimately show ?case using a by blast
qed

lemma predictors_Inr:
  assumes "predictors g samples = Inr (p2, insol)"
  shows "n_rows p2 = length samples \<and> 0 < length samples \<and> length (inner p2) = 1"
  using assms
  by (auto simp: predictors_def then_do_Inr_iff n_rows_def dest!: reshape_flat_Inr)

lemma targets_part_rows:
  assumes run: "targets_part g samples sai p insol = Inr (P, T)"
    and sp: "shape_preserving (m_scaler_transform (model g))"
            "shape_preserving (m_imputer_transform (model g))"
    and p: "n_rows p = length samples"
  shows "n_rows (primary P) \<le> length samples"
    and "list_all (\<lambda>t. n_rows t \<le> length samples) (tensor_list T)"
    and "is_convolutional g \<or> keep_time_axis g \<or> \<not> remove_nan g \<Longrightarrow>
           n_rows (primary P) = length samples
           \<and> list_all (\<lambda>t. n_rows t = length samples) (tensor_list T)"
    and "sequence g = None \<Longrightarrow>
           \<exists>p' t'. P = Single p' \<and> T = Single t' \<and> n_rows p' = n_rows t'"
    and "\<And>q. sequence g = Some q \<Longrightarrow> \<exists>ts. T = Many ts \<and> length ts = q"
proof -
  let ?n = "length samples"
  have "n_rows (primary P) \<le> ?n
      \<and> list_all (\<lambda>t. n_rows t \<le> ?n) (tensor_list T)
      \<and> (is_convolutional g \<or> keep_time_axis g \<or> \<not> remove_nan g \<longrightarrow>
           n_rows (primary P) = ?n \<and> list_all (\<lambda>t. n_rows t = ?n) (tensor_list T))
      \<and> (sequence g = None \<longrightarrow>
           (\<exists>p' t'. P = Single p' \<and> T = Single t' \<and> n_rows p' = n_rows t'))
      \<and> (\<forall>q. sequence g = Some q \<longrightarrow> (\<exists>ts. T = Many ts \<and> length ts = q))"
  proof (cases "sequence g")
    case None
    with run obtain t t1 pt where
      t1: "reshape_flat t ?n = Inr t1" and
      pp: "post_process g sai ?n p t1 = Inr pt" and
      PT: "P = Single (fst pt)" "T = Single (snd pt)"
      by (auto simp: targets_part_def then_do_Inr_iff)
    from reshape_flat_Inr[OF t1] have t1n: "n_rows t1 = ?n" by (simp add: n_rows_def)
    from pp have pp': "post_process g sai ?n p t1 = Inr (fst pt, snd pt)" by simp
    from p have ple: "n_rows p \<le> ?n" by simp
    note R = post_process_rows[OF pp' sp t1n ple]
    show ?thesis using R p PT None by (auto simp: primary_def)
  next
    case (Some q)
    with run obtain pt where
      sl: "seq_loop g sai samples ?n [0..<q] p [] = Inr pt" and
      PT: "P = (if add_insolation g then Many ([fst pt] @ tl insol) else Single (fst pt))"
          "T = Many (snd pt)"
      by (auto simp: targets_part_def then_do_Inr_iff)
    from sl have sl': "seq_loop g sai samples ?n [0..<q] p [] = Inr (fst pt, snd pt)" by simp
    from p have ple: "n_rows p \<le> ?n" by simp
    from seq_loop_rows[OF sl' sp ple] p PT Some
    show ?thesis by (auto simp: primary_def)
  qed
  then show "n_rows (primary P) \<le> length samples"
    and "list_all (\<lambda>t. n_rows t \<le> length samples) (tensor_list T)"
    and "is_convolutional g \<or> keep_time_axis g \<or> \<not> remove_nan g \<Longrightarrow>
           n_rows (primary P) = length samples
           \<and> list_all (\<lambda>t. n_rows t = length samples) (tensor_list T)"
    and "sequence g = None \<Longrightarrow>
           \<exists>p' t'. P = Single p' \<and> T = Single t' \<and> n_rows p' = n_rows t'"
    and "\<And>q. sequence g = Some q \<Longrightarrow> \<exists>ts. T = Many ts \<and> length ts = q"
    by blast+
qed

subsection \<open>Loading keeps the configuration\<close>

lemma same_config_refl: "same_config g g"
  by (simp add: same_config_def)

lemma sel_views_config: "sel_views g = Inr g' \<Longrightarrow> same_config g g'"
  by (auto simp: sel_views_def then_do_Inr_iff same_config_def)

lemma load_minimal_config: "load_minimal g = Inr g' \<Longrightarrow> same_config g g'"
  unfolding load_minimal_def Let_def
  by (auto simp: then_do_Inr_iff same_config_def dest!: sel_views_config
           split: option.splits if_splits)

lemma load_data_config: "load_data g = Inr g' \<Longrightarrow> same_config g g'"
  unfolding load_data_def load_views_def load_full_def
  by (auto simp: then_do_Inr_iff same_config_def
           dest!: sel_views_config load_minimal_config split: if_splits)

lemma ensure_loaded_config: "ensure_loaded g = Inr g' \<Longrightarrow> same_config g g'"
  by (auto simp: ensure_loaded_def same_config_refl dest: load_data_config split: if_splits)

lemma generate_Inr:
  assumes "generate g samples sai = Inr ((P, T), g')"
  obtains p insol where
    "ensure_loaded g = Inr g'" "same_config g g'"
    "predictors g' (requested g samples) = Inr (p, insol)"
    "targets_part g' (requested g samples) sai p insol = Inr (P, T)"
proof -
  from assms obtain g1 pi where
    a: "ensure_loaded g = Inr g1" and
    b: "predictors g1 (requested g samples) = Inr pi" and
    c: "targets_part g1 (requested g samples) sai (fst pi) (snd pi) = Inr (P, T)" and
    d: "g' = g1"
    by (auto simp: generate_def then_do_Inr_iff)
  from b have "predictors g1 (requested g samples) = Inr (fst pi, snd pi)" by simp
  with a c d ensure_loaded_config[OF a] that show thesis by blast
qed

lemma generate_rows:
  assumes run: "generate g samples sai = Inr ((P, T), g')"
    and sp: "shape_preserving (m_scaler_transform (model g))"
            "shape_preserving (m_imputer_transform (model g))"
  shows "0 < length (requested g samples)
       \<and> n_rows (primary P) \<le> length (requested g samples)
       \<and> list_all (\<lambda>t. n_rows t \<le> length (requested g samples)) (tensor_list T)
       \<and> (is_convolutional g \<or> keep_time_axis g \<or> \<not> remove_nan g \<longrightarrow>
           n_rows (primary P) = length (requested g samples)
           \<and> list_all (\<lambda>t. n_rows t = length (requested g samples)) (tensor_list T))
       \<and> (sequence g = None \<longrightarrow>
           (\<exists>p' t'. P = Single p' \<and> T = Single t' \<and> n_rows p' = n_rows t'))
       \<and> (\<forall>q. sequence g = Some q \<longrightarrow> (\<exists>ts. T = Many ts \<and> length ts = q))"
proof -
  from run obtain p insol where
    cfg: "same_config g g'" and
    pr: "predictors g' (requested g samples) = Inr (p, insol)" and
    tp: "targets_part g' (requested g samples) sai p insol = Inr (P, T)"
    by (rule generate_Inr)
  from cfg sp have sp': "shape_preserving (m_scaler_transform (model g'))"
            "shape_preserving (m_imputer_transform (model g'))"
    by (simp_all add: same_config_def)
  from predictors_Inr[OF pr] have p: "n_rows p = length (requested g samples)"
    and pos: "0 < length (requested g samples)" by simp_all
  note R = targets_part_rows[OF tp sp' p]
  from cfg have f: "is_convolutional g' = is_convolutional g" "keep_time_axis g' = keep_time_axis g"
    "remove_nan g' = remove_nan g" "sequence g' = sequence g"
    by (simp_all add: same_config_def)
  show ?thesis using pos R unfolding f by blast
qed

subsection \<open>Row counts of a batch\<close>

lemma len_lower:
  assumes "0 < batch_size g"
  shows "(len g - 1) * int (batch_size g) < n_sample g"
proof -
  let ?x = "real_of_int (n_sample g) / real (batch_size g)"
  have "of_int (len g) - 1 < ?x" unfolding len_def using ceiling_correct[of ?x] by simp
  then have "of_int (len g) < ?x + 1" by simp
  then have "(of_int (len g) - 1) * real (batch_size g) < real_of_int (n_sample g)"
    using assms by (simp add: field_simps)
  then have "real_of_int ((len g - 1) * int (batch_size g)) < real_of_int (n_sample g)"
    by simp
  then show ?thesis by linarith
qed

lemma length_batch_indexes:
  assumes b: "0 < batch_size g" and l: "length (indices g) = nat (n_sample g)"
    and i: "0 \<le> i" "i < len g"
  shows "length (batch_indexes g i) =
           (if i < len g - 1 then batch_size g
            else nat (n_sample g) - nat (len g - 1) * batch_size g)"
    and "0 < length (batch_indexes g i)"
    and "length (batch_indexes g i) \<le> batch_size g"
proof -
  let ?b = "batch_size g" and ?N = "nat (n_sample g)"
  have bi: "batch_indexes g i = take ?b (drop (nat i * ?b) (indices g))"
    using batch_indexes_nat[of g "nat i"] i by simp
  then have len: "length (batch_indexes g i) = min ?b (?N - nat i * ?b)"
    using l by simp
  have "0 \<le> len g - 1" using i by linarith
  then have "int (nat (len g - 1)) = len g - 1" by simp
  then have e: "int (nat (len g - 1) * ?b) = (len g - 1) * int ?b"
    by (simp only: of_nat_mult)
  have "int (nat (len g - 1) * ?b) < n_sample g"
    unfolding e by (rule len_lower[OF b])
  then have low: "nat (len g - 1) * ?b < ?N" by linarith
  have up: "?N \<le> nat (len g) * ?b" by (rule len_covers_nat[OF b])
  have "nat i \<le> nat (len g - 1)" using i by simp
  then have "nat i * ?b \<le> nat (len g - 1) * ?b" by (rule mult_le_mono1)
  with low have lt: "nat i * ?b < ?N" by linarith
  show "0 < length (batch_indexes g i)" using len lt b by simp
  show "length (batch_indexes g i) \<le> batch_size g" using len by simp
  show "length (batch_indexes g i) =
           (if i < len g - 1 then batch_size g
            else nat (n_sample g) - nat (len g - 1) * batch_size g)"
  proof (cases "i < len g - 1")
    case True
    then have "nat i + 1 \<le> nat (len g - 1)" using i by simp
    then have "(nat i + 1) * ?b \<le> nat (len g - 1) * ?b" by (rule mult_le_mono1)
    with low have "nat i * ?b + ?b < ?N" by simp
    with len True show ?thesis by simp
  next
    case False
    with i have e: "i = len g - 1" by simp
    have "nat (len g) = nat (len g - 1) + 1" using i by simp
    with up have "?N \<le> nat (len g - 1) * ?b + ?b" by simp
    with len False e show ?thesis by simp
  qed
qed

lemma getitem_in_range:
  assumes "0 \<le> i" "i < len g" "0 < batch_size g"
  shows "getitem g i = generate g (batch_indexes g i) True"
  using assms by (simp add: getitem_def builtin_len_def)

lemma getitem_negative:
  assumes "i < 0" "0 \<le> len g + i" "0 < batch_size g"
  shows "getitem g i = getitem g (len g + i)"
  using assms by (simp add: getitem_def builtin_len_def)

lemma requested_nonempty: "samples \<noteq> [] \<Longrightarrow> requested g samples = samples"
  by (simp add: requested_def)

lemma init_model:
  assumes "init ext m d a = Inr g"
  shows "model g = m"
proof -
  from assms obtain l insol ida oda g1 where
    g1: "(if arg_force_load a then load_data (new_generator m d a l insol ida oda)
                 else Inr (new_generator m d a l insol ida oda)) = Inr g1" and
    g: "pregenerate_insolation (on_epoch_end ext g1) = Inr g"
    unfolding init_def by (cases "ds_has_predictors d") (auto simp: then_do_Inr_iff)
  from g1 have "model g1 = m"
    by (auto dest!: load_data_config simp: same_config_def new_generator_def split: if_splits)
  moreover from g have "model g = model g1"
    by (auto simp: pregenerate_insolation_def on_epoch_end_def Let_def split: if_splits)
  ultimately show ?thesis by simp
qed

lemma shape_preserving_Pair: "shape_preserving (\<lambda>p t. (p, t))"
  by (simp add: shape_preserving_def)

lemma ex_model_preserving:
  "shape_preserving (m_scaler_transform (ex_model c r))"
  "shape_preserving (m_imputer_transform (ex_model c r))"
  by (simp_all add: ex_model_def shape_preserving_Pair)

lemma not_isl_batch: "\<not> isl x \<Longrightarrow> x = Inr ((fst (fst (projr x)), snd (fst (projr x))), snd (projr x))"
  by (cases x) auto

subsection \<open>The empty selector\<close>


subsection \<open>Target windows\<close>

lemma wrap_index_nonneg: "0 \<le> i \<Longrightarrow> wrap_index n i = nat i"
  by (simp add: wrap_index_def)

lemma wrap_index_less: "in_bounds n i \<Longrightarrow> wrap_index n i < n"
  by (auto simp: wrap_index_def in_bounds_def)

lemma stack_steps_window:
  assumes "stack_steps vals samples off steps False = Inr a"
    and "i < length samples" and "0 \<le> samples ! i + off"
  shows "rows a ! i = window vals (samples ! i + off) steps"
proof -
  have "wrap_index (length (rows vals)) (samples ! i + off + int n) = nat (samples ! i + off + int n)"
    for n using assms(3) by (simp add: wrap_index_nonneg)
  with stack_steps_Inr(4)[OF assms(1,2)] show ?thesis by (simp add: window_def)
qed

lemma stack_steps_wf:
  assumes run: "stack_steps vals samples off steps False = Inr a" and wf: "wf_array vals"
  shows "wf_array a"
proof -
  let ?k = "prod_list (inner vals)"
  have inn: "prod_list (inner a) = steps * ?k"
    using stack_steps_Inr(3)[OF run] by simp
  have "length (rows a ! i) = steps * ?k" if i: "i < length samples" for i
  proof -
    have "length (rows vals ! wrap_index (length (rows vals)) (samples ! i + off + int n)) = ?k"
      if "n < steps" for n
    proof -
      from stack_steps_Inr(5)[OF run i that]
      have "wrap_index (length (rows vals)) (samples ! i + off + int n) < length (rows vals)"
        by (rule wrap_index_less)
      with wf show ?thesis by (simp add: wf_array_def list_all_length)
    qed
    then have "map length (map (\<lambda>n. rows vals ! wrap_index (length (rows vals))
                 (samples ! i + off + int n)) [0..<steps]) = map (\<lambda>n. ?k) [0..<steps]"
      by auto
    then have "length (concat (map (\<lambda>n. rows vals ! wrap_index (length (rows vals))
                 (samples ! i + off + int n)) [0..<steps])) = steps * ?k"
      by (simp add: length_concat sum_list_triv del: map_map)
    with stack_steps_Inr(4)[OF run i] show ?thesis by simp
  qed
  then show ?thesis
    using stack_steps_Inr(2)[OF run] inn by (simp add: wf_array_def list_all_length)
qed

lemma np_size_wf: "np_size a = n_rows a * prod_list (inner a)"
  by (simp add: np_size_def np_shape_def n_rows_def)

lemma reshape_same_rows:
  assumes "reshape a n d = Inr b" "n_rows a = n" "0 < n" "wf_array a"
  shows "rows b = rows a"
proof -
  from reshape_Inr[OF assms(1)] have s: "n * prod_list d = np_size a"
    and r: "rows b = chunk n (prod_list d) (concat (rows a))" by simp_all
  from s assms(2,3) have "prod_list d = prod_list (inner a)" by (simp add: np_size_wf)
  with r assms(2,4) show ?thesis by (simp add: chunk_concat wf_array_def n_rows_def)
qed

lemma reshape_flat_same_rows:
  assumes "reshape_flat a n = Inr b" "n_rows a = n" "wf_array a"
  shows "rows b = rows a \<and> wf_array b \<and> n_rows b = n \<and> 0 < n"
proof -
  from reshape_flat_Inr[OF assms(1)] have n: "0 < n"
    and i: "inner b = [np_size a div n]"
    and r: "rows b = chunk n (np_size a div n) (concat (rows a))" by simp_all
  from n assms(2) have "np_size a div n = prod_list (inner a)" by (simp add: np_size_wf)
  with r i assms(2,3) n show ?thesis by (simp add: chunk_concat wf_array_def n_rows_def)
qed

lemma format_shape_same_rows:
  assumes "format_shape g n (p, t) = Inr (p', t')" "n_rows t = n" "0 < n" "wf_array t"
  shows "rows t' = rows t"
  using assms
  by (auto simp: format_shape_def then_do_Inr_iff dest: reshape_same_rows split: if_splits)

lemma gathered_window:
  assumes g: "then_do (stack_steps vals samples off steps False)
                (\<lambda>t. reshape_flat t (length samples)) = Inr tw"
    and wf: "wf_array vals" and i: "i < length samples" "0 \<le> samples ! i + off"
  shows "rows tw ! i = window vals (samples ! i + off) steps"
    and "n_rows tw = length samples" and "wf_array tw" and "0 < length samples"
proof -
  from g obtain t where st: "stack_steps vals samples off steps False = Inr t"
    and rf: "reshape_flat t (length samples) = Inr tw"
    by (auto simp: then_do_Inr_iff)
  have "n_rows t = length samples" using stack_steps_Inr(2)[OF st] by (simp add: n_rows_def)
  from reshape_flat_same_rows[OF rf this stack_steps_wf[OF st wf]]
  have a: "rows tw = rows t" "wf_array tw" "n_rows tw = length samples" "0 < length samples"
    by simp_all
  from a(1) stack_steps_window[OF st i]
  show "rows tw ! i = window vals (samples ! i + off) steps" by simp
  from a show "n_rows tw = length samples" "wf_array tw" "0 < length samples" by simp_all
qed

lemma seq_loop_trace:
  assumes "seq_loop g sai samples n ss p targets = Inr (p', ts)"
  shows "\<exists>ps tws new. ts = targets @ new \<and> length new = length ss
           \<and> length tws = length ss \<and> length ps = Suc (length ss)
           \<and> ps ! 0 = p \<and> ps ! length ss = p'
           \<and> (\<forall>k<length ss.
                 then_do (stack_steps (da_values (output_da g)) samples
                            (int (input_time_steps g) + int (interval g) - 1
                             + int (output_time_steps g) * int (ss ! k))
                            (output_time_steps g) False)
                   (\<lambda>t. reshape_flat t n) = Inr (tws ! k)
                 \<and> post_process g sai n (ps ! k) (tws ! k) = Inr (ps ! Suc k, new ! k))"
  using assms
proof (induction ss arbitrary: p targets)
  case Nil
  then have "ts = targets @ [] \<and> length ([]::ndarray list) = 0 \<and> length ([]::ndarray list) = 0
     \<and> length [p] = Suc 0 \<and> [p] ! 0 = p \<and> [p] ! 0 = p'" by simp
  then show ?case by (intro exI[of _ "[p]"] exI[of _ "[]"]) simp
next
  case (Cons s ss)
  let ?off = "int (input_time_steps g) + int (interval g) - 1 + int (output_time_steps g) * int s"
  from Cons.prems obtain t t1 pt where
    st: "stack_steps (da_values (output_da g)) samples ?off (output_time_steps g) False = Inr t" and
    rf: "reshape_flat t n = Inr t1" and
    pp: "post_process g sai n p t1 = Inr pt" and
    rest: "seq_loop g sai samples n ss (fst pt) (targets @ [snd pt]) = Inr (p', ts)"
    by (auto simp: then_do_Inr_iff)
  from st rf have gt: "then_do (stack_steps (da_values (output_da g)) samples ?off
                          (output_time_steps g) False) (\<lambda>t. reshape_flat t n) = Inr t1"
    by simp
  from pp have pp': "post_process g sai n p t1 = Inr (fst pt, snd pt)" by simp
  from Cons.IH[OF rest] obtain ps tws new where
    new: "ts = (targets @ [snd pt]) @ new" "length new = length ss" and
    len: "length tws = length ss" "length ps = Suc (length ss)" and
    ends: "ps ! 0 = fst pt" "ps ! length ss = p'" and
    tr: "\<forall>k<length ss.
           then_do (stack_steps (da_values (output_da g)) samples
                      (int (input_time_steps g) + int (interval g) - 1
                       + int (output_time_steps g) * int (ss ! k))
                      (output_time_steps g) False)
             (\<lambda>t. reshape_flat t n) = Inr (tws ! k)
           \<and> post_process g sai n (ps ! k) (tws ! k) = Inr (ps ! Suc k, new ! k)"
    by blast
  let ?ps = "p # ps" and ?tws = "t1 # tws" and ?new = "snd pt # new"
  have a: "ts = targets @ ?new" "length ?new = length (s # ss)"
    "length ?tws = length (s # ss)" "length ?ps = Suc (length (s # ss))"
    "?ps ! 0 = p" "?ps ! length (s # ss) = p'"
    using new len ends by simp_all
  have b: "then_do (stack_steps (da_values (output_da g)) samples
                      (int (input_time_steps g) + int (interval g) - 1
                       + int (output_time_steps g) * int ((s # ss) ! k))
                      (output_time_steps g) False)
             (\<lambda>t. reshape_flat t n) = Inr (?tws ! k)
           \<and> post_process g sai n (?ps ! k) (?tws ! k) = Inr (?ps ! Suc k, ?new ! k)"
    if k: "k < length (s # ss)" for k
  proof (cases k)
    case 0
    with gt pp' ends(1) show ?thesis by simp
  next
    case (Suc j)
    with k have "j < length ss" by simp
    with tr Suc show ?thesis by simp
  qed
  from a b show ?case by blast
qed

subsection \<open>Generating without scaling\<close>

lemma shapes_model_upd:
  "convolution_shape (g\<lparr>model := m\<rparr>) = convolution_shape g"
  "output_convolution_shape (g\<lparr>model := m\<rparr>) = output_convolution_shape g"
  "dense_shape (g\<lparr>model := m\<rparr>) = dense_shape g"
  "output_dense_shape (g\<lparr>model := m\<rparr>) = output_dense_shape g"
  by (simp_all add: convolution_shape_def output_convolution_shape_def dense_shape_def
        output_dense_shape_def shape_def output_shape_def n_features_def output_n_features_def)

lemma post_process_model_upd:
  "post_process (g\<lparr>model := m\<rparr>) False n p t = post_process g False n p t"
  by (simp add: post_process_def format_shape_def scale_and_impute_step_def
        remove_nan_step_def shapes_model_upd)

lemma seq_loop_model_upd:
  "seq_loop (g\<lparr>model := m\<rparr>) False samples n ss p targets
     = seq_loop g False samples n ss p targets"
  by (induction ss arbitrary: p targets) (simp_all add: post_process_model_upd)

lemma add_insol_model_upd:
  "add_insol (g\<lparr>model := m\<rparr>) samples n p = add_insol g samples n p"
  by (simp add: add_insol_def Let_def convolution_shape_def shape_def
           cong: option.case_cong list.case_cong)

lemma predictors_model_upd: "predictors (g\<lparr>model := m\<rparr>) samples = predictors g samples"
  by (simp add: predictors_def add_insol_model_upd cong: if_cong)

lemma targets_part_model_upd:
  "targets_part (g\<lparr>model := m\<rparr>) samples False p insol = targets_part g samples False p insol"
  by (simp add: targets_part_def seq_loop_model_upd post_process_model_upd
           split: option.splits)

lemma sel_views_model_upd:
  "sel_views (g\<lparr>model := m\<rparr>) = map_sum id (\<lambda>g1. g1\<lparr>model := m\<rparr>) (sel_views g)"
  unfolding sel_views_def
  by (cases "ds_sel (ds g) (input_sel g) (da g)"; cases "ds_sel (ds g) (output_sel g) (da g)")
     simp_all

lemma then_do_map_sum_comm:
  "(\<And>v. f' v = map_sum id h (f v)) \<Longrightarrow> then_do x f' = map_sum id h (then_do x f)"
  by (cases x) simp_all

lemma then_do_map_sum: "then_do (map_sum id h x) f = then_do x (\<lambda>v. f (h v))"
  by (cases x) simp_all

lemma load_minimal_model_upd:
  "load_minimal (g\<lparr>model := m\<rparr>) = map_sum id (\<lambda>g1. g1\<lparr>model := m\<rparr>) (load_minimal g)"
proof -
  have A: "sel_views (g\<lparr>model := m, da := da_load (da g)\<rparr>)
           = map_sum id (\<lambda>g1. g1\<lparr>model := m\<rparr>) (sel_views (g\<lparr>da := da_load (da g)\<rparr>))"
  proof -
    have sw: "g\<lparr>model := m, da := da_load (da g)\<rparr> = (g\<lparr>da := da_load (da g)\<rparr>)\<lparr>model := m\<rparr>"
      by simp
    show ?thesis unfolding sw by (rule sel_views_model_upd)
  qed
  show ?thesis
    unfolding load_minimal_def Let_def using A
    by (auto intro!: then_do_map_sum_comm split: option.splits)
qed

lemma load_full_model_upd: "load_full (g\<lparr>model := m\<rparr>) = (load_full g)\<lparr>model := m\<rparr>"
  by (simp add: load_full_def)

lemma load_views_model_upd:
  "load_views (g\<lparr>model := m\<rparr>) = map_sum id (\<lambda>g1. g1\<lparr>model := m\<rparr>) (load_views g)"
proof (cases "load g = PStr ''minimal''")
  case True
  then show ?thesis by (simp add: load_views_def load_minimal_model_upd)
next
  case False
  then show ?thesis
    by (cases "sel_views g") (simp_all add: load_views_def sel_views_model_upd)
qed

lemma load_data_model_upd:
  "load_data (g\<lparr>model := m\<rparr>) = map_sum id (\<lambda>g1. g1\<lparr>model := m\<rparr>) (load_data g)"
  unfolding load_data_def load_full_model_upd load_views_model_upd then_do_map_sum
  by (rule then_do_map_sum_comm) simp

lemma ensure_loaded_model_upd:
  "ensure_loaded (g\<lparr>model := m\<rparr>) = map_sum id (\<lambda>g1. g1\<lparr>model := m\<rparr>) (ensure_loaded g)"
  by (simp add: ensure_loaded_def load_data_model_upd)

lemma requested_model_upd: "requested (g\<lparr>model := m\<rparr>) samples = requested g samples"
  by (simp add: requested_def)

lemma generate_model_upd:
  "generate (g\<lparr>model := m\<rparr>) samples False
     = map_sum id (map_prod id (\<lambda>g1. g1\<lparr>model := m\<rparr>)) (generate g samples False)"
proof (cases "ensure_loaded g")
  case (Inl e)
  then show ?thesis by (simp add: generate_def ensure_loaded_model_upd)
next
  case (Inr g1)
  show ?thesis
  proof (cases "predictors g1 (requested g samples)")
    case (Inl e)
    with Inr show ?thesis
      by (simp add: generate_def ensure_loaded_model_upd requested_model_upd
            predictors_model_upd)
  next
    case pi: (Inr pi)
    show ?thesis
      using Inr pi
      by (cases "targets_part g1 (requested g samples) False (fst pi) (snd pi)")
         (simp_all add: generate_def ensure_loaded_model_upd requested_model_upd
            predictors_model_upd targets_part_model_upd)
  qed
qed

lemma format_shape_layout_inner:
  assumes "format_shape g n (p, t) = Inr (p', t')"
    and "length (inner p) = 1" "length (inner t) = 1"
  shows "in_layout g p' t'"
  using assms
  by (auto simp: format_shape_def in_layout_def then_do_Inr_iff np_shape_def
           dest!: reshape_Inr split: if_splits)

lemma format_shape_layout_again:
  assumes "format_shape g n (p, t) = Inr (p', t')"
    and "is_convolutional g \<or> keep_time_axis g \<or> length (inner p) = 1" "length (inner t) = 1"
  shows "in_layout g p' t'
         \<and> (is_convolutional g \<or> keep_time_axis g \<or> length (inner p') = 1)"
  using assms
  by (auto simp: format_shape_def in_layout_def then_do_Inr_iff np_shape_def
           dest!: reshape_Inr split: if_splits)

lemma post_process_layout:
  assumes "post_process g False n p t = Inr (p', t')"
    and "is_convolutional g \<or> keep_time_axis g \<or> length (inner p) = 1" "length (inner t) = 1"
  shows "in_layout g p' t'
         \<and> (is_convolutional g \<or> keep_time_axis g \<or> length (inner p') = 1)"
proof -
  let ?a = "remove_nan_step g p t"
  from assms(1) have "format_shape g n (fst ?a, snd ?a) = Inr (p', t')"
    by (simp add: post_process_def scale_and_impute_step_def)
  from format_shape_layout_again[OF this] assms(2,3) show ?thesis
    by (simp add: remove_nan_step_rows)
qed

lemma seq_loop_layout:
  assumes "seq_loop g False samples n ss p targets = Inr (p', ts)"
    and "is_convolutional g \<or> keep_time_axis g \<or> length (inner p) = 1"
  shows "\<exists>new. ts = targets @ new \<and> length new = length ss
           \<and> (ss \<noteq> [] \<longrightarrow> list_all (in_layout g p') new)"
  using assms
proof (induction ss arbitrary: p targets)
  case Nil
  then show ?case by simp
next
  case (Cons s ss)
  from Cons.prems(1) obtain t t1 pt where
    t1: "reshape_flat t n = Inr t1" and
    pp: "post_process g False n p t1 = Inr pt" and
    rest: "seq_loop g False samples n ss (fst pt) (targets @ [snd pt]) = Inr (p', ts)"
    by (auto simp: then_do_Inr_iff)
  from reshape_flat_Inr[OF t1] have i1: "length (inner t1) = 1" by simp
  from pp have "post_process g False n p t1 = Inr (fst pt, snd pt)" by simp
  from post_process_layout[OF this Cons.prems(2) i1]
  have lay: "in_layout g (fst pt) (snd pt)"
    and inv: "is_convolutional g \<or> keep_time_axis g \<or> length (inner (fst pt)) = 1" by simp_all
  from Cons.IH[OF rest inv] obtain new where
    new: "ts = (targets @ [snd pt]) @ new" "length new = length ss" and
    all: "ss \<noteq> [] \<longrightarrow> list_all (in_layout g p') new" by blast
  have tl: "in_layout g p' (snd pt)"
  proof (cases ss)
    case Nil
    with rest have "p' = fst pt" by simp
    with lay show ?thesis by simp
  next
    case (Cons s2 ss2)
    with all new have "new \<noteq> []" "list_all (in_layout g p') new" by auto
    then obtain t2 where "in_layout g p' t2" by (cases new) auto
    with lay show ?thesis by (auto simp: in_layout_def split: if_splits)
  qed
  have "list_all (in_layout g p') (snd pt # new)"
  proof (cases ss)
    case Nil
    with new tl show ?thesis by simp
  next
    case (Cons s2 ss2)
    with all tl show ?thesis by simp
  qed
  with new show ?case by (intro exI[of _ "snd pt # new"]) simp
qed

lemma targets_part_layout:
  assumes run: "targets_part g samples False p insol = Inr (P, T)"
    and p: "length (inner p) = 1" and q: "sequence g \<noteq> Some 0"
  shows "list_all (in_layout g (primary P)) (tensor_list T) \<and> tensor_list T \<noteq> []"
proof (cases "sequence g")
  case None
  with run obtain t t1 pt where
    t1: "reshape_flat t (length samples) = Inr t1" and
    pp: "post_process g False (length samples) p t1 = Inr pt" and
    PT: "P = Single (fst pt)" "T = Single (snd pt)"
    by (auto simp: targets_part_def then_do_Inr_iff)
  from reshape_flat_Inr[OF t1] have i1: "length (inner t1) = 1" by simp
  from pp have "post_process g False (length samples) p t1 = Inr (fst pt, snd pt)" by simp
  from post_process_layout[OF this _ i1] p PT show ?thesis by (simp add: primary_def)
next
  case (Some k)
  with run obtain pt where
    sl: "seq_loop g False samples (length samples) [0..<k] p [] = Inr pt" and
    PT: "P = (if add_insolation g then Many ([fst pt] @ tl insol) else Single (fst pt))"
        "T = Many (snd pt)"
    by (auto simp: targets_part_def then_do_Inr_iff)
  from sl have "seq_loop g False samples (length samples) [0..<k] p [] = Inr (fst pt, snd pt)"
    by simp
  from seq_loop_layout[OF this] p obtain new where
    "snd pt = new" "length new = k" "[0..<k] \<noteq> [] \<longrightarrow> list_all (in_layout g (fst pt)) new"
    by auto
  moreover have "0 < k" using q Some by simp
  moreover have "primary P = fst pt" using PT by (simp add: primary_def)
  ultimately show ?thesis using PT by auto
qed

lemma layout_config:
  assumes "ensure_loaded g = Inr g'"
  shows "is_convolutional g' = is_convolutional g \<and> keep_time_axis g' = keep_time_axis g
         \<and> sequence g' = sequence g"
  using ensure_loaded_config[OF assms] by (simp add: same_config_def)

subsection \<open>When generate returns\<close>






subsection \<open>DataGenerator\<close>

lemma dg_keep_time_axis_same:
  "dg_keep_time_axis g = b \<Longrightarrow> g\<lparr>dg_keep_time_axis := b\<rparr> = g"
  by simp

lemma dg_shape_2d_restores:
  "dg_shape_2d g = (dg_convolution_shape (g\<lparr>dg_keep_time_axis := False\<rparr>), g)"
  by (cases "dg_keep_time_axis g")
     (simp_all add: dg_shape_2d_def Let_def dg_convolution_shape_def dg_keep_time_axis_same)

lemma dg_getitem_at_len:
  assumes "dg_builtin_len g = Inr l" "0 \<le> dg_batch_size g"
    and "length (dg_indices g) \<le> nat l * nat (dg_batch_size g)"
  shows "dg_getitem g l = dg_generate g [] True"
proof -
  have l: "0 \<le> l" using assms(1)
    by (auto simp: dg_builtin_len_def then_do_Inr_iff split: if_splits)
  let ?b = "nat (dg_batch_size g)"
  have e1: "l * dg_batch_size g = int (nat l * ?b)" using l assms(2) by simp
  have e2: "(l + 1) * dg_batch_size g = int ((nat l + 1) * ?b)"
    using l assms(2) by (simp add: algebra_simps)
  have "py_slice (dg_indices g) (l * dg_batch_size g) ((l + 1) * dg_batch_size g)
        = take ((nat l + 1) * ?b - nat l * ?b) (drop (nat l * ?b) (dg_indices g))"
    unfolding e1 e2 by (rule py_slice_nat) simp
  also have "\<dots> = []" using assms(3) by simp
  finally show ?thesis using assms(1) l by (simp add: dg_getitem_def)
qed

lemma dg_shape_model_upd:
  "dg_shape (g\<lparr>dg_model := m\<rparr>) = dg_shape g"
  "dg_n_features (g\<lparr>dg_model := m\<rparr>) = dg_n_features g"
  by (simp_all add: dg_shape_def dg_n_features_def)

lemma dg_shapes_model_upd:
  "dg_convolution_shape (g\<lparr>dg_model := m\<rparr>) = dg_convolution_shape g"
  "dg_dense_shape (g\<lparr>dg_model := m\<rparr>) = dg_dense_shape g"
  by (simp_all add: dg_convolution_shape_def dg_dense_shape_def dg_shape_model_upd
        cong: if_cong)

lemma dg_format_shape_model_upd:
  "dg_format_shape (g\<lparr>dg_model := m\<rparr>) n pt = dg_format_shape g n pt"
  by (simp add: dg_format_shape_def dg_shapes_model_upd)

lemma dg_isel_model_upd: "dg_isel (g\<lparr>dg_model := m\<rparr>) samples = dg_isel g samples"
  by (simp add: dg_isel_def)

lemma dg_generate_model_upd:
  "dg_generate (g\<lparr>dg_model := m\<rparr>) samples False = dg_generate g samples False"
  by (simp add: dg_generate_def dg_isel_model_upd dg_format_shape_model_upd
        dg_scale_and_impute_step_def)

lemma dg_generate_Inr:
  assumes "dg_generate g samples sai = Inr (p', t')"
  obtains sel p t where
    "dg_isel g samples = Inr sel"
    "reshape_flat (fst sel) (n_rows (fst sel)) = Inr p"
    "reshape_flat (snd sel) (n_rows (fst sel)) = Inr t"
    "dg_format_shape g (n_rows (fst sel))
       (dg_scale_and_impute_step g sai
          (if dg_remove_nan g then delete_nan_samples p t else (p, t))) = Inr (p', t')"
  using assms by (auto simp: dg_generate_def then_do_Inr_iff n_rows_def)

lemma dg_format_shape_Inr:
  assumes "dg_format_shape g n pt = Inr (p', t')"
  shows "(dg_is_convolutional g \<or> dg_keep_time_axis g \<longrightarrow> n_rows p' = n \<and> n_rows t' = n)
       \<and> (\<not> dg_is_convolutional g \<and> \<not> dg_keep_time_axis g \<longrightarrow> p' = fst pt \<and> t' = snd pt)
       \<and> (length (inner (fst pt)) = 1 \<and> length (inner (snd pt)) = 1 \<longrightarrow> dg_in_layout g p' t')"
  using assms
  by (auto simp: dg_format_shape_def dg_in_layout_def then_do_Inr_iff n_rows_def np_shape_def
           dest!: reshape_Inr split: if_splits)




lemma dg_generate_layout:
  assumes run: "dg_generate g samples False = Inr (p', t')"
  shows "dg_in_layout g p' t'"
proof -
  from run obtain sel p t where
    p: "reshape_flat (fst sel) (n_rows (fst sel)) = Inr p" and
    t: "reshape_flat (snd sel) (n_rows (fst sel)) = Inr t" and
    f: "dg_format_shape g (n_rows (fst sel))
         (dg_scale_and_impute_step g False
            (if dg_remove_nan g then delete_nan_samples p t else (p, t))) = Inr (p', t')"
    by (rule dg_generate_Inr)
  let ?a = "if dg_remove_nan g then delete_nan_samples p t else (p, t)"
  from reshape_flat_Inr[OF p] reshape_flat_Inr[OF t]
  have "length (inner p) = 1" "length (inner t) = 1" by simp_all
  then have "length (inner (fst ?a)) = 1 \<and> length (inner (snd ?a)) = 1"
    by (simp add: delete_nan_samples_rows)
  with dg_format_shape_Inr[OF f] show ?thesis by (simp add: dg_scale_and_impute_step_def)
qed

section \<open>The claims\<close>

subsection \<open>Claim C1\<close>

text \<open>
  Claim C1. Every generator that the constructor returns has the sample count of
  the specification's formula,
  \<open>total_samples - input_time_steps - output_time_steps * (sequence or 1) + 2 - interval\<close>,
  and its \<open>__len__\<close> is the ceiling of that count divided by the batch size. The
  quotient is the exact one. The scenario with 100 samples, two input steps, one
  output step, interval one, no sequence and batches of 32 is the witness: 98
  samples, four batches.
\<close>

theorem len_is_ceiling:
  assumes "init ext m d a = Inr g"
  shows "n_sample g = spec_n_sample (ds_dim_sample d) (arg_input_time_steps a)
                        (arg_output_time_steps a) (arg_sequence a) (arg_interval a)
       \<and> len g = \<lceil>real_of_int (n_sample g) / real_of_int (arg_batch_size a)\<rceil>"
  using init_fields[OF assms]
  by (auto simp: spec_n_sample_def len_def split: option.splits)

theorem len_is_ceiling_witness:
  "\<exists>g. init ex_ext (ex_model False False) (ex_ds 100) ex_args_100 = Inr g
       \<and> n_sample g = 98 \<and> len g = 4"
proof -
  obtain g where g: "init ex_ext (ex_model False False) (ex_ds 100) ex_args_100 = Inr g"
    using ex_init_100 by blast
  have "n_sample g = 98 \<and> len g = 4"
    using len_is_ceiling[OF g]
    by (simp add: spec_n_sample_def ex_ds_def ex_args_100_def default_args_def)
  with g show ?thesis by blast
qed

subsection \<open>Claim C2\<close>

text \<open>
  Claim C2 says that \<open>__getitem__(len(generator))\<close> raises \<open>IndexError\<close>. The check
  in the code is \<open>index > len(self)\<close>, which lets the index \<open>len\<close> through; the
  slice of the index ordering is then empty, and \<open>generate\<close> reads an empty
  selector as all samples. On the small instance, with two batches of two samples,
  the index 2 returns all four samples, and so it does for the \<open>DataGenerator\<close>
  with two batches of two.
\<close>

theorem getitem_at_len_example:
  "len (ex_gen False False 6 ex_args_small) = 2
   \<and> batch_indexes (ex_gen False False 6 ex_args_small) 2 = []
   \<and> map_sum id fst (getitem (ex_gen False False 6 ex_args_small) 2) =
       Inr (Single \<lparr>inner = [4],
                    rows = [[Num 0, Num 1, Num 10, Num 11], [Num 10, Num 11, Num 20, Num 21],
                            [Num 20, Num 21, Num 30, Num 31], [Num 30, Num 31, Num 40, Num 41]]\<rparr>,
            Single \<lparr>inner = [2],
                    rows = [[Num 20, Num 21], [Num 30, Num 31], [Num 40, Num 41],
                            [Num 50, Num 51]]\<rparr>)
   \<and> dg_builtin_len (ex_dgen False False True) = Inr 2
   \<and> dg_getitem (ex_dgen False False True) 2 =
       Inr (\<lparr>inner = [2],
              rows = [[Num 0, Num 1], [Num 10, Num 11], [Num 20, Num 21], [Num 30, Num 31]]\<rparr>,
            \<lparr>inner = [2],
              rows = [[Num 20, Num 21], [Num 30, Num 31], [Num 40, Num 41], [Num 50, Num 51]]\<rparr>)"
  by code_simp

subsection \<open>Claim C3\<close>

text \<open>
  Claim C3. Whatever the configuration and the flag \<open>scale_and_impute\<close>, a call of
  \<open>generate\<close> that returns has gathered, for the \<open>i\<close>-th requested start offset \<open>s\<close>,
  the target window of \<open>output_time_steps\<close> consecutive observations starting at
  the absolute sample index \<open>s + input_time_steps + interval - 1\<close>, in chronological
  order: this is row \<open>i\<close> of the array \<open>tw\<close> that the code builds from \<open>output_da\<close>
  and hands to the post-processing together with the predictors, and the target
  that is returned is what the post-processing makes of \<open>tw\<close>. In sequence mode
  the construction is repeated \<open>sequence\<close> times: the list has \<open>sequence\<close> targets,
  the window of target \<open>k\<close> starts \<open>output_time_steps * k\<close> later, and every pass
  takes the predictors as the pass before has left them. Where the NaN removal drops
  nothing and the scaling changes nothing, the row of the returned target is the
  window itself.
\<close>

theorem target_windows:
  assumes run: "generate g samples sai = Inr ((P, T), g')"
    and wf: "wf_array (da_values (output_da g'))"
    and i: "i < length (requested g samples)"
    and nn: "0 \<le> requested g samples ! i"
  shows "(sequence g = None \<longrightarrow>
            (\<exists>p insol tw pt.
               predictors g' (requested g samples) = Inr (p, insol)
               \<and> then_do (stack_steps (da_values (output_da g')) (requested g samples)
                            (int (input_time_steps g) + int (interval g) - 1)
                            (output_time_steps g) False)
                    (\<lambda>t. reshape_flat t (length (requested g samples))) = Inr tw
               \<and> rows tw ! i = window (da_values (output_da g'))
                                 (requested g samples ! i + int (input_time_steps g)
                                  + int (interval g) - 1)
                                 (output_time_steps g)
               \<and> post_process g' sai (length (requested g samples)) p tw = Inr pt
               \<and> T = Single (snd pt)
               \<and> (remove_nan_step g' p tw = (p, tw)
                  \<and> scale_and_impute_step g' sai (p, tw) = (p, tw) \<longrightarrow>
                    rows (snd pt) ! i = window (da_values (output_da g'))
                                          (requested g samples ! i + int (input_time_steps g)
                                           + int (interval g) - 1)
                                          (output_time_steps g))))
       \<and> (\<forall>q. sequence g = Some q \<longrightarrow>
            (\<exists>ps insol tws ts.
               predictors g' (requested g samples) = Inr (ps ! 0, insol)
               \<and> length ps = Suc q \<and> length tws = q \<and> length ts = q \<and> T = Many ts
               \<and> (\<forall>k<q.
                    then_do (stack_steps (da_values (output_da g')) (requested g samples)
                               (int (input_time_steps g) + int (interval g) - 1
                                + int (output_time_steps g) * int k)
                               (output_time_steps g) False)
                      (\<lambda>t. reshape_flat t (length (requested g samples))) = Inr (tws ! k)
                    \<and> rows (tws ! k) ! i =
                        window (da_values (output_da g'))
                          (requested g samples ! i + int (input_time_steps g)
                           + int (interval g) - 1 + int (output_time_steps g) * int k)
                          (output_time_steps g)
                    \<and> post_process g' sai (length (requested g samples)) (ps ! k) (tws ! k)
                        = Inr (ps ! Suc k, ts ! k)
                    \<and> (remove_nan_step g' (ps ! k) (tws ! k) = (ps ! k, tws ! k)
                       \<and> scale_and_impute_step g' sai (ps ! k, tws ! k) = (ps ! k, tws ! k)
                       \<longrightarrow>
                         rows (ts ! k) ! i =
                           window (da_values (output_da g'))
                             (requested g samples ! i + int (input_time_steps g)
                              + int (interval g) - 1 + int (output_time_steps g) * int k)
                             (output_time_steps g)))))"
proof -
  let ?s = "requested g samples"
  let ?out = "da_values (output_da g')"
  let ?start = "?s ! i + int (input_time_steps g) + int (interval g) - 1"
  from run obtain p insol where
    cfg: "same_config g g'" and
    pr: "predictors g' ?s = Inr (p, insol)" and
    tp: "targets_part g' ?s sai p insol = Inr (P, T)"
    by (rule generate_Inr)
  from cfg have f: "sequence g' = sequence g" "remove_nan g' = remove_nan g"
    "input_time_steps g' = input_time_steps g" "interval g' = interval g"
    "output_time_steps g' = output_time_steps g"
    by (simp_all add: same_config_def)
  from pr obtain p0 where
    "stack_steps (da_values (input_da g')) ?s 0 (input_time_steps g') False = Inr p0"
    by (auto simp: predictors_def then_do_Inr_iff)
  from stack_steps_Inr(1)[OF this] have its: "0 < input_time_steps g" by (simp add: f)
  have off: "0 \<le> ?s ! i + (int (input_time_steps g) + int (interval g) - 1
                            + int (output_time_steps g) * int k)" for k
  proof -
    have "0 \<le> int (output_time_steps g) * int k" by simp
    with nn its show ?thesis by linarith
  qed
  have raw: "rows t' ! i = window ?out (?s ! i + o') (output_time_steps g)"
    if g: "then_do (stack_steps ?out ?s o' (output_time_steps g) False)
             (\<lambda>t. reshape_flat t (length ?s)) = Inr tw"
      and pp: "post_process g' sai (length ?s) p1 tw = Inr (p', t')"
      and o': "0 \<le> ?s ! i + o'"
      and same: "remove_nan_step g' p1 tw = (p1, tw)"
        "scale_and_impute_step g' sai (p1, tw) = (p1, tw)"
    for o' tw p1 p' t'
  proof -
    from pp same have "format_shape g' (length ?s) (p1, tw) = Inr (p', t')"
      by (simp add: post_process_def)
    from format_shape_same_rows[OF this gathered_window(2,4,3)[OF g wf i o']]
      gathered_window(1)[OF g wf i o']
    show ?thesis by simp
  qed
  have one: ?thesis if sq: "sequence g = None"
  proof -
    let ?o = "int (input_time_steps g) + int (interval g) - 1"
    from tp sq f obtain tw pt where
      g: "then_do (stack_steps ?out ?s ?o (output_time_steps g) False)
            (\<lambda>t. reshape_flat t (length ?s)) = Inr tw" and
      pp: "post_process g' sai (length ?s) p tw = Inr pt" and
      T: "T = Single (snd pt)"
      by (auto simp: targets_part_def then_do_Inr_iff)
    from off[of 0] have o: "0 \<le> ?s ! i + ?o" by simp
    have w: "rows tw ! i = window ?out ?start (output_time_steps g)"
      using gathered_window(1)[OF g wf i o] by (simp add: algebra_simps)
    from pp have "post_process g' sai (length ?s) p tw = Inr (fst pt, snd pt)" by simp
    from raw[OF g this o]
    have r: "remove_nan_step g' p tw = (p, tw)
             \<and> scale_and_impute_step g' sai (p, tw) = (p, tw) \<longrightarrow>
               rows (snd pt) ! i = window ?out ?start (output_time_steps g)"
      by (simp add: algebra_simps)
    from pr g w pp T r have
      "\<exists>p insol tw pt.
         predictors g' ?s = Inr (p, insol)
         \<and> then_do (stack_steps ?out ?s ?o (output_time_steps g) False)
              (\<lambda>t. reshape_flat t (length ?s)) = Inr tw
         \<and> rows tw ! i = window ?out ?start (output_time_steps g)
         \<and> post_process g' sai (length ?s) p tw = Inr pt
         \<and> T = Single (snd pt)
         \<and> (remove_nan_step g' p tw = (p, tw)
            \<and> scale_and_impute_step g' sai (p, tw) = (p, tw) \<longrightarrow>
              rows (snd pt) ! i = window ?out ?start (output_time_steps g))"
      by blast
    with sq show ?thesis by simp
  qed
  have many: ?thesis if sq: "sequence g = Some q" for q
  proof -
    from tp sq f obtain pt where
      sl: "seq_loop g' sai ?s (length ?s) [0..<q] p [] = Inr pt" and
      T: "T = Many (snd pt)"
      by (auto simp: targets_part_def then_do_Inr_iff)
    from sl have "seq_loop g' sai ?s (length ?s) [0..<q] p [] = Inr (fst pt, snd pt)" by simp
    from seq_loop_trace[OF this] obtain ps tws where
      len: "length (snd pt) = q" "length tws = q" "length ps = Suc q" and
      p0: "ps ! 0 = p" and
      tr: "\<forall>k<q.
             then_do (stack_steps ?out ?s
                        (int (input_time_steps g) + int (interval g) - 1
                         + int (output_time_steps g) * int k)
                        (output_time_steps g) False)
               (\<lambda>t. reshape_flat t (length ?s)) = Inr (tws ! k)
             \<and> post_process g' sai (length ?s) (ps ! k) (tws ! k)
                 = Inr (ps ! Suc k, snd pt ! k)"
      by (auto simp: f)
    have step: "then_do (stack_steps ?out ?s
                        (int (input_time_steps g) + int (interval g) - 1
                         + int (output_time_steps g) * int k)
                        (output_time_steps g) False)
               (\<lambda>t. reshape_flat t (length ?s)) = Inr (tws ! k)
             \<and> rows (tws ! k) ! i =
                 window ?out (?start + int (output_time_steps g) * int k) (output_time_steps g)
             \<and> post_process g' sai (length ?s) (ps ! k) (tws ! k)
                 = Inr (ps ! Suc k, snd pt ! k)
             \<and> (remove_nan_step g' (ps ! k) (tws ! k) = (ps ! k, tws ! k)
                \<and> scale_and_impute_step g' sai (ps ! k, tws ! k) = (ps ! k, tws ! k)
                \<longrightarrow>
                  rows (snd pt ! k) ! i =
                    window ?out (?start + int (output_time_steps g) * int k)
                      (output_time_steps g))"
      if k: "k < q" for k
    proof -
      let ?o = "int (input_time_steps g) + int (interval g) - 1
                + int (output_time_steps g) * int k"
      from tr k have
        g: "then_do (stack_steps ?out ?s ?o (output_time_steps g) False)
              (\<lambda>t. reshape_flat t (length ?s)) = Inr (tws ! k)" and
        pp: "post_process g' sai (length ?s) (ps ! k) (tws ! k) = Inr (ps ! Suc k, snd pt ! k)"
        by simp_all
      have w: "rows (tws ! k) ! i =
                 window ?out (?start + int (output_time_steps g) * int k) (output_time_steps g)"
        using gathered_window(1)[OF g wf i off[of k]] by (simp add: algebra_simps)
      from raw[OF g pp off[of k]]
      have r: "remove_nan_step g' (ps ! k) (tws ! k) = (ps ! k, tws ! k)
                \<and> scale_and_impute_step g' sai (ps ! k, tws ! k) = (ps ! k, tws ! k)
                \<longrightarrow>
                  rows (snd pt ! k) ! i =
                    window ?out (?start + int (output_time_steps g) * int k)
                      (output_time_steps g)"
        by (simp add: algebra_simps)
      from g w pp r show ?thesis by blast
    qed
    from pr p0 have pr0: "predictors g' ?s = Inr (ps ! 0, insol)" by simp
    from step have all: "\<forall>k<q.
             then_do (stack_steps ?out ?s
                        (int (input_time_steps g) + int (interval g) - 1
                         + int (output_time_steps g) * int k)
                        (output_time_steps g) False)
               (\<lambda>t. reshape_flat t (length ?s)) = Inr (tws ! k)
             \<and> rows (tws ! k) ! i =
                 window ?out (?start + int (output_time_steps g) * int k) (output_time_steps g)
             \<and> post_process g' sai (length ?s) (ps ! k) (tws ! k)
                 = Inr (ps ! Suc k, snd pt ! k)
             \<and> (remove_nan_step g' (ps ! k) (tws ! k) = (ps ! k, tws ! k)
                \<and> scale_and_impute_step g' sai (ps ! k, tws ! k) = (ps ! k, tws ! k)
                \<longrightarrow>
                  rows (snd pt ! k) ! i =
                    window ?out (?start + int (output_time_steps g) * int k)
                      (output_time_steps g))"
      by blast
    from pr0 len T all have
      "\<exists>ps insol tws ts.
         predictors g' ?s = Inr (ps ! 0, insol)
         \<and> length ps = Suc q \<and> length tws = q \<and> length ts = q \<and> T = Many ts
         \<and> (\<forall>k<q.
             then_do (stack_steps ?out ?s
                        (int (input_time_steps g) + int (interval g) - 1
                         + int (output_time_steps g) * int k)
                        (output_time_steps g) False)
               (\<lambda>t. reshape_flat t (length ?s)) = Inr (tws ! k)
             \<and> rows (tws ! k) ! i =
                 window ?out (?start + int (output_time_steps g) * int k) (output_time_steps g)
             \<and> post_process g' sai (length ?s) (ps ! k) (tws ! k)
                 = Inr (ps ! Suc k, ts ! k)
             \<and> (remove_nan_step g' (ps ! k) (tws ! k) = (ps ! k, tws ! k)
                \<and> scale_and_impute_step g' sai (ps ! k, tws ! k) = (ps ! k, tws ! k)
                \<longrightarrow>
                  rows (ts ! k) ! i =
                    window ?out (?start + int (output_time_steps g) * int k)
                      (output_time_steps g)))"
      by blast
    with sq show ?thesis by simp
  qed
  from one many show ?thesis by (cases "sequence g") auto
qed

text \<open>
  Two instances. The default configuration (NaN removal on, scaling on, a scaler
  that changes nothing) with two output steps, an interval of two and two sequence
  steps, asked for the start offset 1: the windows are the samples 4, 5 and 6, 7.
  The convolutional layout without NaN removal and without scaling, one output step:
  the window is the sample 3.
\<close>

theorem target_windows_witness:
  "remove_nan (ex_gen False False 8 ex_args_windows)
   \<and> sequence (ex_gen False False 8 ex_args_windows) = Some 2
   \<and> output_time_steps (ex_gen False False 8 ex_args_windows) = 2
   \<and> \<not> isl (generate (ex_gen False False 8 ex_args_windows) [1] True)
   \<and> wf_array (da_values (output_da (snd (projr
        (generate (ex_gen False False 8 ex_args_windows) [1] True)))))
   \<and> (0::nat) < length (requested (ex_gen False False 8 ex_args_windows) [1])
   \<and> 0 \<le> requested (ex_gen False False 8 ex_args_windows) [1] ! 0
   \<and> (\<exists>ps tws ts.
         snd (fst (projr (generate (ex_gen False False 8 ex_args_windows) [1] True))) = Many ts
         \<and> length ts = 2
         \<and> rows (tws ! 0) ! 0 = [Num 40, Num 41, Num 50, Num 51]
         \<and> rows (tws ! 1) ! 0 = [Num 60, Num 61, Num 70, Num 71]
         \<and> post_process (snd (projr (generate (ex_gen False False 8 ex_args_windows) [1] True)))
             True 1 (ps ! 0) (tws ! 0) = Inr (ps ! 1, ts ! 0)
         \<and> post_process (snd (projr (generate (ex_gen False False 8 ex_args_windows) [1] True)))
             True 1 (ps ! 1) (tws ! 1) = Inr (ps ! 2, ts ! 1)
         \<and> rows (ts ! 0) ! 0 = [Num 40, Num 41, Num 50, Num 51]
         \<and> rows (ts ! 1) ! 0 = [Num 60, Num 61, Num 70, Num 71])
   \<and> \<not> remove_nan (ex_gen True False 6 ex_args_keep_nan)
   \<and> sequence (ex_gen True False 6 ex_args_keep_nan) = None
   \<and> \<not> isl (generate (ex_gen True False 6 ex_args_keep_nan) [1] False)
   \<and> wf_array (da_values (output_da (snd (projr
        (generate (ex_gen True False 6 ex_args_keep_nan) [1] False)))))
   \<and> (0::nat) < length (requested (ex_gen True False 6 ex_args_keep_nan) [1])
   \<and> 0 \<le> requested (ex_gen True False 6 ex_args_keep_nan) [1] ! 0
   \<and> (\<exists>t. snd (fst (projr (generate (ex_gen True False 6 ex_args_keep_nan) [1] False)))
             = Single t
           \<and> rows t ! 0 = [Num 30, Num 31])"
proof -
  let ?G = "ex_gen False False 8 ex_args_windows"
  let ?r = "generate ?G [1] True"
  let ?G' = "snd (projr ?r)"
  let ?out = "da_values (output_da ?G')"
  let ?p = "\<lparr>inner = [4], rows = [[Num 10, Num 11, Num 20, Num 21]]\<rparr>"
  let ?a = "\<lparr>inner = [4], rows = [[Num 40, Num 41, Num 50, Num 51]]\<rparr>"
  let ?b = "\<lparr>inner = [4], rows = [[Num 60, Num 61, Num 70, Num 71]]\<rparr>"
  have rn: "remove_nan ?G" by code_simp
  have sq: "sequence ?G = Some 2" by code_simp
  have r: "\<not> isl ?r" by code_simp
  then have run: "?r = Inr ((fst (fst (projr ?r)), snd (fst (projr ?r))), snd (projr ?r))"
    by (rule not_isl_batch)
  have wf: "wf_array ?out" by code_simp
  have rq: "requested ?G [1] = [1]" by code_simp
  then have i: "0 < length (requested ?G [1])" and nn: "0 \<le> requested ?G [1] ! 0" by simp_all
  have par: "input_time_steps ?G = 2" "interval ?G = 2" "output_time_steps ?G = 2" by code_simp+
  have w: "window ?out 4 2 = [Num 40, Num 41, Num 50, Num 51]"
    "window ?out 6 2 = [Num 60, Num 61, Num 70, Num 71]" by code_simp+
  have pr: "predictors ?G' [1] = Inr (?p, [])" by code_simp
  have ga: "then_do (stack_steps ?out [1] 3 2 False) (\<lambda>t. reshape_flat t 1) = Inr ?a"
    and gb: "then_do (stack_steps ?out [1] 5 2 False) (\<lambda>t. reshape_flat t 1) = Inr ?b"
    by code_simp+
  have pa: "post_process ?G' True 1 ?p ?a = Inr (?p, ?a)" by code_simp
  have same: "remove_nan_step ?G' ?p ?a = (?p, ?a)"
    "scale_and_impute_step ?G' True (?p, ?a) = (?p, ?a)"
    "remove_nan_step ?G' ?p ?b = (?p, ?b)"
    "scale_and_impute_step ?G' True (?p, ?b) = (?p, ?b)"
    by code_simp+
  from target_windows[OF run wf i nn] sq obtain ps insol tws ts where
    p0: "predictors ?G' (requested ?G [1]) = Inr (ps ! 0, insol)" and
    ts: "snd (fst (projr ?r)) = Many ts" "length ts = 2" and
    tr: "\<forall>k<2.
           then_do (stack_steps ?out (requested ?G [1])
                      (int (input_time_steps ?G) + int (interval ?G) - 1
                       + int (output_time_steps ?G) * int k)
                      (output_time_steps ?G) False)
             (\<lambda>t. reshape_flat t (length (requested ?G [1]))) = Inr (tws ! k)
           \<and> rows (tws ! k) ! 0 =
               window ?out (requested ?G [1] ! 0 + int (input_time_steps ?G) + int (interval ?G)
                            - 1 + int (output_time_steps ?G) * int k) (output_time_steps ?G)
           \<and> post_process ?G' True (length (requested ?G [1])) (ps ! k) (tws ! k)
               = Inr (ps ! Suc k, ts ! k)
           \<and> (remove_nan_step ?G' (ps ! k) (tws ! k) = (ps ! k, tws ! k)
              \<and> scale_and_impute_step ?G' True (ps ! k, tws ! k) = (ps ! k, tws ! k)
              \<longrightarrow> rows (ts ! k) ! 0 =
                    window ?out (requested ?G [1] ! 0 + int (input_time_steps ?G)
                                 + int (interval ?G) - 1 + int (output_time_steps ?G) * int k)
                      (output_time_steps ?G))"
    by auto
  from p0 pr have e0: "ps ! 0 = ?p" by (simp add: rq)
  have z: "(0::nat) < 2" "(1::nat) < 2" by simp_all
  from tr[rule_format, OF z(1)] have k0:
    "then_do (stack_steps ?out [1] 3 2 False) (\<lambda>t. reshape_flat t 1) = Inr (tws ! 0)"
    "rows (tws ! 0) ! 0 = window ?out 4 2"
    "post_process ?G' True 1 (ps ! 0) (tws ! 0) = Inr (ps ! 1, ts ! 0)"
    "remove_nan_step ?G' (ps ! 0) (tws ! 0) = (ps ! 0, tws ! 0)
     \<and> scale_and_impute_step ?G' True (ps ! 0, tws ! 0) = (ps ! 0, tws ! 0)
     \<longrightarrow> rows (ts ! 0) ! 0 = window ?out 4 2"
    by (simp_all add: rq par)
  from tr[rule_format, OF z(2)] have k1:
    "then_do (stack_steps ?out [1] 5 2 False) (\<lambda>t. reshape_flat t 1) = Inr (tws ! 1)"
    "rows (tws ! 1) ! 0 = window ?out 6 2"
    "post_process ?G' True 1 (ps ! 1) (tws ! 1) = Inr (ps ! 2, ts ! 1)"
    "remove_nan_step ?G' (ps ! 1) (tws ! 1) = (ps ! 1, tws ! 1)
     \<and> scale_and_impute_step ?G' True (ps ! 1, tws ! 1) = (ps ! 1, tws ! 1)
     \<longrightarrow> rows (ts ! 1) ! 0 = window ?out 6 2"
    by (simp_all add: rq par numeral_2_eq_2)
  from k0(1) ga have ea: "tws ! 0 = ?a" by simp
  from k1(1) gb have eb: "tws ! 1 = ?b" by simp
  from k0(3) pa have e1: "ps ! 1 = ?p" unfolding e0 ea by simp
  from k0(4) same(1,2) have ra: "rows (ts ! 0) ! 0 = window ?out 4 2" unfolding e0 ea by blast
  from k1(4) same(3,4) have rb: "rows (ts ! 1) ! 0 = window ?out 6 2" unfolding e1 eb by blast
  from ts k0(2,3) k1(2,3) ra rb w have A: "\<exists>ps tws ts.
         snd (fst (projr ?r)) = Many ts
         \<and> length ts = 2
         \<and> rows (tws ! 0) ! 0 = [Num 40, Num 41, Num 50, Num 51]
         \<and> rows (tws ! 1) ! 0 = [Num 60, Num 61, Num 70, Num 71]
         \<and> post_process ?G' True 1 (ps ! 0) (tws ! 0) = Inr (ps ! 1, ts ! 0)
         \<and> post_process ?G' True 1 (ps ! 1) (tws ! 1) = Inr (ps ! 2, ts ! 1)
         \<and> rows (ts ! 0) ! 0 = [Num 40, Num 41, Num 50, Num 51]
         \<and> rows (ts ! 1) ! 0 = [Num 60, Num 61, Num 70, Num 71]"
    by auto
  let ?H = "ex_gen True False 6 ex_args_keep_nan"
  let ?q = "generate ?H [1] False"
  let ?H' = "snd (projr ?q)"
  let ?outH = "da_values (output_da ?H')"
  have nrH: "\<not> remove_nan ?H" by code_simp
  have nrH': "\<not> remove_nan ?H'" by code_simp
  have sqH: "sequence ?H = None" by code_simp
  have q: "\<not> isl ?q" by code_simp
  then have runH: "?q = Inr ((fst (fst (projr ?q)), snd (fst (projr ?q))), snd (projr ?q))"
    by (rule not_isl_batch)
  have wfH: "wf_array ?outH" by code_simp
  have rqH: "requested ?H [1] = [1]" by code_simp
  then have iH: "0 < length (requested ?H [1])" and nnH: "0 \<le> requested ?H [1] ! 0"
    by simp_all
  have parH: "input_time_steps ?H = 2" "interval ?H = 1" "output_time_steps ?H = 1"
    by code_simp+
  have wH: "window ?outH 3 1 = [Num 30, Num 31]" by code_simp
  have sameH: "remove_nan_step ?H' p tw = (p, tw)"
    "scale_and_impute_step ?H' False (p, tw) = (p, tw)" for p tw
    using nrH' by (simp_all add: remove_nan_step_def scale_and_impute_step_False)
  from target_windows[OF runH wfH iH nnH] sqH sameH obtain t where
    "snd (fst (projr ?q)) = Single t"
    "rows t ! 0 = window ?outH (requested ?H [1] ! 0 + int (input_time_steps ?H)
                                + int (interval ?H) - 1) (output_time_steps ?H)"
    by auto
  with wH have B: "\<exists>t. snd (fst (projr ?q)) = Single t \<and> rows t ! 0 = [Num 30, Num 31]"
    by (simp add: rqH parH)
  from rn sq par(3) r wf i nn A nrH sqH q wfH iH nnH B show ?thesis by blast
qed

subsection \<open>Claim C4\<close>

text \<open>
  Claim C4, as stated, fails in the layout without a time axis: the generator built
  with two input steps and insolation has four channels, the same configuration
  without insolation has two. The insolation adds one channel per input step.
\<close>

theorem insolation_channel_counterexample:
  "\<not> isl (init ex_ext (ex_model True False) (ex_ds 6)
             (ex_args_small\<lparr>arg_add_insolation := PBool True\<rparr>))
   \<and> add_insolation ex_gen_insol
   \<and> \<not> keep_time_axis ex_gen_insol
   \<and> input_time_steps ex_gen_insol = 2
   \<and> channel_dim ex_gen_insol = 4
   \<and> channel_dim (ex_gen_insol\<lparr>add_insolation := False\<rparr>) = 2
   \<and> channel_dim ex_gen_plain = 2
   \<and> channel_dim ex_gen_insol \<noteq> channel_dim ex_gen_plain + 1"
  by code_simp

text \<open>
  Claim C4, amended. With insolation enabled the channel dimension of
  \<open>convolution_shape\<close> is the channel count of the same configuration without
  insolation plus one in the layout with a time axis, and plus \<open>input_time_steps\<close>
  in the layout without.
\<close>

theorem insolation_channel_law:
  assumes "add_insolation g"
  shows "channel_dim g = channel_dim (g\<lparr>add_insolation := False\<rparr>)
                         + (if keep_time_axis g then 1 else input_time_steps g)"
  using assms by (simp add: channel_dim_def convolution_shape_def shape_def)

theorem insolation_channel_law_witness:
  "add_insolation ex_gen_insol \<and> channel_dim ex_gen_insol = 2 + 2"
proof -
  have a: "add_insolation ex_gen_insol" by code_simp
  have b: "channel_dim (ex_gen_insol\<lparr>add_insolation := False\<rparr>) = 2" by code_simp
  have c: "\<not> keep_time_axis ex_gen_insol" "input_time_steps ex_gen_insol = 2" by code_simp+
  show ?thesis using insolation_channel_law[OF a] a b c by simp
qed

subsection \<open>Claim C5\<close>

text \<open>
  Claim C5. After \<open>on_epoch_end\<close>, and so after construction, the slices
  \<open>[i * batch_size, (i + 1) * batch_size)\<close> of the index ordering for
  \<open>i = 0, \<dots>, len - 1\<close> hold every index of \<open>{0, \<dots>, n_sample - 1}\<close> exactly once,
  with or without shuffling. What is asked of \<open>np.random.shuffle\<close> is that it
  permutes the array it is given.
\<close>

theorem batches_visit_each_index_once:
  assumes "mset (np_random_shuffle ext (arange (n_sample g))) = mset (arange (n_sample g))"
  shows "(0 < batch_size g \<longrightarrow>
            mset (epoch_indexes (on_epoch_end ext g)) = mset_set {0..<n_sample g})
       \<and> (init ext m d a = Inr g \<longrightarrow> mset (epoch_indexes g) = mset_set {0..<n_sample g})"
proof (intro conjI impI)
  assume "0 < batch_size g"
  with assms show "mset (epoch_indexes (on_epoch_end ext g)) = mset_set {0..<n_sample g}"
    by (rule epoch_partition)
next
  assume i: "init ext m d a = Inr g"
  from init_indices[OF i] have e: "indices g = indices (on_epoch_end ext g)" and b: "0 < batch_size g"
    by simp_all
  have "epoch_indexes g = epoch_indexes (on_epoch_end ext g)"
    using e by (simp add: epoch_indexes_take len_def on_epoch_end_fields)
  with epoch_partition[OF assms b]
  show "mset (epoch_indexes g) = mset_set {0..<n_sample g}" by simp
qed

theorem batches_visit_each_index_once_witness:
  "mset (np_random_shuffle ex_ext (arange 4)) = mset (arange 4)
   \<and> 0 < batch_size (ex_gen False False 6 ex_args_shuffle)
   \<and> \<not> isl (init ex_ext (ex_model False False) (ex_ds 6) ex_args_shuffle)
   \<and> shuffle (ex_gen False False 6 ex_args_shuffle)
   \<and> epoch_indexes (ex_gen False False 6 ex_args_shuffle) = [3, 2, 1, 0]
   \<and> mset (epoch_indexes (on_epoch_end ex_ext (ex_gen False False 6 ex_args_shuffle)))
       = mset_set {0..<4}
   \<and> mset (epoch_indexes (ex_gen False False 6 ex_args_shuffle)) = mset_set {0..<4}"
proof -
  let ?G = "ex_gen False False 6 ex_args_shuffle"
  have n: "n_sample ?G = 4" by code_simp
  have p: "mset (np_random_shuffle ex_ext (arange 4)) = mset (arange 4)"
    by (simp add: ex_ext_def)
  have b: "0 < batch_size ?G" by code_simp
  have ok: "\<not> isl (init ex_ext (ex_model False False) (ex_ds 6) ex_args_shuffle)" by code_simp
  then have i: "init ex_ext (ex_model False False) (ex_ds 6) ex_args_shuffle = Inr ?G"
    unfolding ex_gen_def by (rule not_isl_collapse)
  have s: "shuffle ?G" by code_simp
  have e: "epoch_indexes ?G = [3, 2, 1, 0]" by code_simp
  from batches_visit_each_index_once [where ext = ex_ext and g = ?G and m = "ex_model False False"
        and d = "ex_ds 6" and a = ex_args_shuffle] p n b i
  have "mset (epoch_indexes (on_epoch_end ex_ext ?G)) = mset_set {0..<4}
        \<and> mset (epoch_indexes ?G) = mset_set {0..<4}" by simp
  with p b ok s e show ?thesis by blast
qed

subsection \<open>Claim C6\<close>

text \<open>
  Claim C6, as stated, fails where NaN removal drops a row: on the dataset whose
  first sample holds a NaN, with two batches of two, batch 0 is not the last batch
  and has one row.
\<close>

theorem batch_rows_counterexample:
  "len (ex_gen_nan ex_args_small) = 2
   \<and> batch_size (ex_gen_nan ex_args_small) = 2
   \<and> remove_nan (ex_gen_nan ex_args_small)
   \<and> map_sum id fst (getitem (ex_gen_nan ex_args_small) 0) =
       Inr (Single \<lparr>inner = [4], rows = [[Num 10, Num 11, Num 20, Num 21]]\<rparr>,
            Single \<lparr>inner = [2], rows = [[Num 30, Num 31]]\<rparr>)
   \<and> n_rows (primary (fst (fst (projr (getitem (ex_gen_nan ex_args_small) 0)))))
       \<noteq> batch_size (ex_gen_nan ex_args_small)"
  by code_simp

text \<open>
  In sequence mode with NaN removal, each pass of the loop filters the predictors
  against the fresh target of that pass only: on the same dataset the predictors
  and the first target have one row and the second target has two.
\<close>

lemma sequence_nan_removal_example:
  "map_sum id (\<lambda>r. (map n_rows (tensor_list (fst (fst r))), map n_rows (tensor_list (snd (fst r)))))
     (getitem (ex_gen_nan (ex_args_small\<lparr>arg_sequence := Some 2\<rparr>)) 0) = Inr ([1], [1, 2])"
  by code_simp

text \<open>
  Claim C6, amended. Let the transforms of the model be shape-preserving and let
  \<open>__getitem__\<close> return for a batch index \<open>0 \<le> i < len\<close> of a generator whose
  index ordering has \<open>n_sample\<close> entries. The slice of the batch has \<open>batch_size\<close>
  indices, except for the last batch, which has the remaining ones, at least one and
  at most \<open>batch_size\<close>. The predictor array and every target array have at most
  that many rows; they have exactly that many when NaN removal is off or when the
  model has a convolutional or time-axis layout; and outside sequence mode the
  predictor array and the target array have the same number of rows.
\<close>

theorem batch_row_counts:
  assumes run: "getitem g i = Inr ((P, T), g')"
    and i: "0 \<le> i" "i < len g"
    and b: "0 < batch_size g" and l: "length (indices g) = nat (n_sample g)"
    and sp: "shape_preserving (m_scaler_transform (model g))"
            "shape_preserving (m_imputer_transform (model g))"
  shows "length (batch_indexes g i) =
           (if i < len g - 1 then batch_size g
            else nat (n_sample g) - nat (len g - 1) * batch_size g)
       \<and> 0 < length (batch_indexes g i) \<and> length (batch_indexes g i) \<le> batch_size g
       \<and> n_rows (primary P) \<le> length (batch_indexes g i)
       \<and> list_all (\<lambda>t. n_rows t \<le> length (batch_indexes g i)) (tensor_list T)
       \<and> (is_convolutional g \<or> keep_time_axis g \<or> \<not> remove_nan g \<longrightarrow>
            n_rows (primary P) = length (batch_indexes g i)
            \<and> list_all (\<lambda>t. n_rows t = length (batch_indexes g i)) (tensor_list T))
       \<and> (sequence g = None \<longrightarrow>
            (\<exists>p t. P = Single p \<and> T = Single t \<and> n_rows p = n_rows t))"
proof -
  note L = length_batch_indexes[OF b l i]
  from L(2) have "requested g (batch_indexes g i) = batch_indexes g i"
    by (simp add: requested_def)
  moreover from run have "generate g (batch_indexes g i) True = Inr ((P, T), g')"
    by (simp add: getitem_in_range[OF i b])
  ultimately show ?thesis
    using generate_rows[OF _ sp, of "batch_indexes g i" True P T g'] L by simp
qed

theorem batch_row_counts_witness:
  "(0::int) \<le> 1 \<and> 1 < len (ex_gen True False 6 ex_args_small)
   \<and> 0 < batch_size (ex_gen True False 6 ex_args_small)
   \<and> \<not> isl (getitem (ex_gen True False 6 ex_args_small) 1)
   \<and> is_convolutional (ex_gen True False 6 ex_args_small)
   \<and> length (batch_indexes (ex_gen True False 6 ex_args_small) 1) = 2
   \<and> n_rows (primary (fst (fst (projr (getitem (ex_gen True False 6 ex_args_small) 1))))) = 2
   \<and> list_all (\<lambda>t. n_rows t = 2)
        (tensor_list (snd (fst (projr (getitem (ex_gen True False 6 ex_args_small) 1)))))"
proof -
  let ?G = "ex_gen True False 6 ex_args_small"
  let ?r = "getitem ?G 1"
  have ok: "\<not> isl (init ex_ext (ex_model True False) (ex_ds 6) ex_args_small)" by code_simp
  then have "init ex_ext (ex_model True False) (ex_ds 6) ex_args_small = Inr ?G"
    unfolding ex_gen_def by (rule not_isl_collapse)
  then have m: "model ?G = ex_model True False" by (rule init_model)
  have i: "(0::int) \<le> 1" "1 < len ?G" by simp code_simp
  have b: "0 < batch_size ?G" by code_simp
  have l: "length (indices ?G) = nat (n_sample ?G)" by code_simp
  have c: "is_convolutional ?G" by code_simp
  have k: "length (batch_indexes ?G 1) = 2" by code_simp
  have r: "\<not> isl ?r" by code_simp
  then have run: "?r = Inr ((fst (fst (projr ?r)), snd (fst (projr ?r))), snd (projr ?r))"
    by (rule not_isl_batch)
  from batch_row_counts[OF run i b l] m ex_model_preserving c k
  have "n_rows (primary (fst (fst (projr ?r)))) = 2
        \<and> list_all (\<lambda>t. n_rows t = 2) (tensor_list (snd (fst (projr ?r))))"
    by simp
  with i b r c k show ?thesis by blast
qed

subsection \<open>Claim C7\<close>

text \<open>
  Claim C7, as stated, fails for a convolutional model: with
  \<open>scale_and_impute=False\<close> the arrays are still reshaped to the convolutional
  layout, here to four dimensions.
\<close>

theorem unscaled_generate_counterexample:
  "is_convolutional ex_gen_plain
   \<and> map_sum id fst (generate ex_gen_plain [0] False) =
       Inr (Single \<lparr>inner = [2, 1, 2], rows = [[Num 0, Num 1, Num 10, Num 11]]\<rparr>,
            Single \<lparr>inner = [1, 1, 2], rows = [[Num 20, Num 21]]\<rparr>)
   \<and> length (np_shape (primary (fst (fst (projr (generate ex_gen_plain [0] False)))))) \<noteq> 2"
  by code_simp

text \<open>
  Claim C7, amended. With \<open>scale_and_impute=False\<close> neither the scaler nor the
  imputer of the model is invoked: the arrays returned do not depend on the model
  object at all. The arrays are in the layout of the model: flat, with two
  dimensions, only when the model is neither convolutional nor recurrent, and in the
  convolutional or time-axis shapes otherwise. This holds for a
  \<open>SeriesDataGenerator\<close> and for a \<open>DataGenerator\<close>.
\<close>

theorem unscaled_generate:
  "map_sum id fst (generate (g\<lparr>model := m\<rparr>) samples False)
     = map_sum id fst (generate g samples False)
   \<and> (generate g samples False = Inr ((P, T), g') \<and> sequence g \<noteq> Some 0 \<longrightarrow>
        tensor_list T \<noteq> [] \<and> list_all (in_layout g' (primary P)) (tensor_list T))
   \<and> dg_generate (d\<lparr>dg_model := m\<rparr>) samples False = dg_generate d samples False
   \<and> (dg_generate d samples False = Inr (p, t) \<longrightarrow> dg_in_layout d p t)"
proof (intro conjI)
  show "map_sum id fst (generate (g\<lparr>model := m\<rparr>) samples False)
          = map_sum id fst (generate g samples False)"
    by (cases "generate g samples False") (simp_all add: generate_model_upd)
  show "generate g samples False = Inr ((P, T), g') \<and> sequence g \<noteq> Some 0 \<longrightarrow>
        tensor_list T \<noteq> [] \<and> list_all (in_layout g' (primary P)) (tensor_list T)"
  proof
    assume a: "generate g samples False = Inr ((P, T), g') \<and> sequence g \<noteq> Some 0"
    then obtain p0 insol where
      el: "ensure_loaded g = Inr g'" and
      pr: "predictors g' (requested g samples) = Inr (p0, insol)" and
      tp: "targets_part g' (requested g samples) False p0 insol = Inr (P, T)"
      by (auto elim: generate_Inr)
    from predictors_Inr[OF pr] have "length (inner p0) = 1" by simp
    moreover from a layout_config[OF el] have "sequence g' \<noteq> Some 0" by simp
    ultimately show "tensor_list T \<noteq> [] \<and> list_all (in_layout g' (primary P)) (tensor_list T)"
      using targets_part_layout[OF tp] by simp
  qed
  show "dg_generate (d\<lparr>dg_model := m\<rparr>) samples False = dg_generate d samples False"
    by (rule dg_generate_model_upd)
  show "dg_generate d samples False = Inr (p, t) \<longrightarrow> dg_in_layout d p t"
    using dg_generate_layout by blast
qed

theorem unscaled_generate_witness:
  "\<not> isl (generate (ex_gen False False 6 ex_args_small) [0] False)
   \<and> sequence (ex_gen False False 6 ex_args_small) \<noteq> Some 0
   \<and> map_sum id fst (generate ((ex_gen False False 6 ex_args_small)\<lparr>model := ex_model_swap\<rparr>)
                        [0] False)
       = Inr (Single \<lparr>inner = [4], rows = [[Num 0, Num 1, Num 10, Num 11]]\<rparr>,
              Single \<lparr>inner = [2], rows = [[Num 20, Num 21]]\<rparr>)
   \<and> list_all (in_layout (snd (projr (generate (ex_gen False False 6 ex_args_small) [0] False)))
                 (primary (fst (fst (projr (generate (ex_gen False False 6 ex_args_small) [0]
                                             False))))))
        (tensor_list (snd (fst (projr (generate (ex_gen False False 6 ex_args_small) [0]
                                         False)))))"
proof -
  let ?G = "ex_gen False False 6 ex_args_small"
  let ?r = "generate ?G [0] False"
  have r: "\<not> isl ?r" by code_simp
  then have run: "?r = Inr ((fst (fst (projr ?r)), snd (fst (projr ?r))), snd (projr ?r))"
    by (rule not_isl_batch)
  have s: "sequence ?G \<noteq> Some 0" by code_simp
  have v: "map_sum id fst ?r
           = Inr (Single \<lparr>inner = [4], rows = [[Num 0, Num 1, Num 10, Num 11]]\<rparr>,
                  Single \<lparr>inner = [2], rows = [[Num 20, Num 21]]\<rparr>)" by code_simp
  note U = unscaled_generate[where g = ?G and m = ex_model_swap and samples = "[0]"
      and P = "fst (fst (projr ?r))" and T = "snd (fst (projr ?r))" and g' = "snd (projr ?r)"]
  from U v have 1: "map_sum id fst (generate (?G\<lparr>model := ex_model_swap\<rparr>) [0] False)
       = Inr (Single \<lparr>inner = [4], rows = [[Num 0, Num 1, Num 10, Num 11]]\<rparr>,
              Single \<lparr>inner = [2], rows = [[Num 20, Num 21]]\<rparr>)" by simp
  from U run s have 2: "list_all (in_layout (snd (projr ?r)) (primary (fst (fst (projr ?r)))))
        (tensor_list (snd (fst (projr ?r))))" by blast
  from r s 1 2 show ?thesis by blast
qed

subsection \<open>Claim C8\<close>



subsection \<open>Claim C9\<close>

text \<open>
  Claim C9. Reading \<open>shape_2d\<close> returns \<open>convolution_shape\<close> as computed with the
  time-axis flag off, and the instance it leaves behind is the instance it found:
  the flag has its old value, so \<open>convolution_shape\<close> and \<open>dense_shape\<close> read
  afterwards are what they were. The same holds for \<open>output_shape_2d\<close> and
  \<open>output_convolution_shape\<close>, and for \<open>shape_2d\<close> of a \<open>DataGenerator\<close>.
\<close>

theorem shape_2d_restores_flag:
  "shape_2d g = (convolution_shape (g\<lparr>keep_time_axis := False\<rparr>), g)
   \<and> output_shape_2d g = (output_convolution_shape (g\<lparr>keep_time_axis := False\<rparr>), g)
   \<and> convolution_shape (snd (shape_2d g)) = convolution_shape g
   \<and> dense_shape (snd (shape_2d g)) = dense_shape g
   \<and> convolution_shape (snd (output_shape_2d g)) = convolution_shape g
   \<and> dense_shape (snd (output_shape_2d g)) = dense_shape g
   \<and> dg_shape_2d d = (dg_convolution_shape (d\<lparr>dg_keep_time_axis := False\<rparr>), d)"
proof -
  have "shape_2d g = (convolution_shape (g\<lparr>keep_time_axis := False\<rparr>), g)
   \<and> output_shape_2d g = (output_convolution_shape (g\<lparr>keep_time_axis := False\<rparr>), g)
   \<and> convolution_shape (snd (shape_2d g)) = convolution_shape g
   \<and> dense_shape (snd (shape_2d g)) = dense_shape g
   \<and> convolution_shape (snd (output_shape_2d g)) = convolution_shape g
   \<and> dense_shape (snd (output_shape_2d g)) = dense_shape g"
    by (cases "keep_time_axis g")
       (simp_all add: shape_2d_def output_shape_2d_def Let_def keep_time_axis_same)
  then show ?thesis by (simp add: dg_shape_2d_restores)
qed

subsection \<open>Claim C10\<close>

text \<open>
  Claim C10. A boolean \<open>load\<close> passes the validation of the constructor:
  \<open>True\<close> becomes the mode \<open>required\<close>, and any falsy value is kept as it is. The
  validation raises exactly for a truthy value that is neither a boolean nor one of
  \<open>full\<close>, \<open>required\<close>, \<open>minimal\<close>, and the constructor then raises the same error
  once the dataset and the numeric arguments have passed. A constructed generator
  holds the validated value and, unless \<open>force_load\<close> was given, is not loaded; the
  load step runs in \<open>generate\<close>, which leaves the instance loaded. With a falsy
  \<open>load\<close> that step selects the two views and calls no \<open>.load()\<close>.
\<close>

theorem load_argument_validation:
  "check_load (PBool True) = Inr (PStr ''required'')
   \<and> (\<not> truthy l \<longrightarrow> check_load l = Inr l)
   \<and> (check_load l = Inl e \<longleftrightarrow>
        truthy l \<and> \<not> is_bool l \<and> l \<notin> set [PStr ''full'', PStr ''required'', PStr ''minimal'']
        \<and> e = ValueError ''load must be one of full, required, or minimal'')
   \<and> (ds_has_predictors d \<and> check_args a = Inr () \<and> check_load (arg_load a) = Inl e
        \<longrightarrow> init ext m d a = Inl e)
   \<and> (init ext m d a = Inr g \<longrightarrow>
        check_load (arg_load a) = Inr (load g) \<and> (\<not> arg_force_load a \<longrightarrow> \<not> is_loaded g))
   \<and> (\<not> truthy (load g) \<longrightarrow>
        load_data g = then_do (sel_views g) (\<lambda>g2. Inr (g2\<lparr>is_loaded := True\<rparr>)))
   \<and> (generate g s f = Inr (b, g') \<longrightarrow> ensure_loaded g = Inr g' \<and> is_loaded g')"
proof -
  have 1: "check_load (PBool True) = Inr (PStr ''required'')" by (simp add: check_load_def)
  have 2: "\<not> truthy l \<longrightarrow> check_load l = Inr l" by (simp add: check_load_def)
  have 3: "check_load l = Inl e \<longleftrightarrow>
        truthy l \<and> \<not> is_bool l \<and> l \<notin> set [PStr ''full'', PStr ''required'', PStr ''minimal'']
        \<and> e = ValueError ''load must be one of full, required, or minimal''"
    by (auto simp: check_load_def)
  have 4: "ds_has_predictors d \<and> check_args a = Inr () \<and> check_load (arg_load a) = Inl e
        \<longrightarrow> init ext m d a = Inl e" using init_load_error by blast
  have 5: "init ext m d a = Inr g \<longrightarrow>
        check_load (arg_load a) = Inr (load g) \<and> (\<not> arg_force_load a \<longrightarrow> \<not> is_loaded g)"
    using init_load by blast
  have 6: "\<not> truthy (load g) \<longrightarrow>
        load_data g = then_do (sel_views g) (\<lambda>g2. Inr (g2\<lparr>is_loaded := True\<rparr>))"
  proof
    assume f: "\<not> truthy (load g)"
    then have "load g \<noteq> PStr ''full''" "load g \<noteq> PStr ''minimal''" "load g \<noteq> PStr ''required''"
      by auto
    moreover have "\<And>g2. sel_views g = Inr g2 \<Longrightarrow> load g2 = load g"
      by (auto simp: sel_views_def then_do_Inr_iff)
    ultimately show "load_data g = then_do (sel_views g) (\<lambda>g2. Inr (g2\<lparr>is_loaded := True\<rparr>))"
      by (cases "sel_views g") (simp_all add: load_data_def load_views_def load_full_def)
  qed
  have 7: "generate g s f = Inr (b, g') \<longrightarrow> ensure_loaded g = Inr g' \<and> is_loaded g'"
    using generate_post_state ensure_loaded_loaded by blast
  from 1 2 3 4 5 6 7 show ?thesis by blast
qed

theorem load_argument_validation_witness:
  "\<not> truthy (PBool False) \<and> check_load (PBool False) = Inr (PBool False)
   \<and> truthy (PInt 7) \<and> \<not> is_bool (PInt 7)
   \<and> init ex_ext (ex_model False False) (ex_ds 6) (ex_args_small\<lparr>arg_load := PInt 7\<rparr>)
       = Inl (ValueError ''load must be one of full, required, or minimal'')
   \<and> \<not> isl (init ex_ext (ex_model False False) (ex_ds 6) ex_args_bool)
   \<and> load (ex_gen False False 6 ex_args_bool) = PStr ''required''
   \<and> \<not> is_loaded (ex_gen False False 6 ex_args_bool)
   \<and> \<not> isl (generate (ex_gen False False 6 ex_args_lazy) [0] False)
   \<and> is_loaded (snd (projr (generate (ex_gen False False 6 ex_args_lazy) [0] False)))"
proof -
  let ?M = "ex_model False False" and ?D = "ex_ds 6"
  let ?G = "ex_gen False False 6 ex_args_bool" and ?L = "ex_gen False False 6 ex_args_lazy"
  let ?E = "ValueError ''load must be one of full, required, or minimal''"
  have f: "\<not> truthy (PBool False)" by simp
  have t: "truthy (PInt 7) \<and> \<not> is_bool (PInt 7)
           \<and> PInt 7 \<notin> set [PStr ''full'', PStr ''required'', PStr ''minimal'']" by simp
  have pre: "ds_has_predictors ?D \<and> check_args (ex_args_small\<lparr>arg_load := PInt 7\<rparr>) = Inr ()"
    by code_simp
  have ok: "\<not> isl (init ex_ext ?M ?D ex_args_bool)" by code_simp
  then have i: "init ex_ext ?M ?D ex_args_bool = Inr ?G"
    unfolding ex_gen_def by (rule not_isl_collapse)
  have nf: "\<not> arg_force_load ex_args_bool" by code_simp
  have cl: "check_load (arg_load ex_args_bool) = Inr (PStr ''required'')" by code_simp
  have gok: "\<not> isl (generate ?L [0] False)" by code_simp
  then have ge: "generate ?L [0] False
                 = Inr (fst (projr (generate ?L [0] False)), snd (projr (generate ?L [0] False)))"
    using not_isl_collapse by fastforce
  note A = load_argument_validation [where l = "PBool False" and e = ?E and d = ?D
      and a = ex_args_bool and ext = ex_ext and m = ?M and g = ?G]
  note A' = load_argument_validation [where g = ?L and s = "[0]" and f = False
      and b = "fst (projr (generate ?L [0] False))"
      and g' = "snd (projr (generate ?L [0] False))"]
  note B = load_argument_validation [where l = "PInt 7" and e = ?E and d = ?D
      and a = "ex_args_small\<lparr>arg_load := PInt 7\<rparr>" and ext = ex_ext and m = ?M]
  have 1: "check_load (PBool False) = Inr (PBool False)" using A f by blast
  have 2: "check_load (PInt 7) = Inl ?E" using B t by blast
  have 3: "init ex_ext ?M ?D (ex_args_small\<lparr>arg_load := PInt 7\<rparr>) = Inl ?E"
    using B pre 2 by simp
  have 4: "load ?G = PStr ''required'' \<and> \<not> is_loaded ?G" using A i nf cl by simp
  have 5: "is_loaded (snd (projr (generate ?L [0] False)))" using A' ge by blast
  from f t 1 3 ok 4 gok 5 show ?thesis by blast
qed

end
